theory Spec2Isabelle
  imports Main
begin

section \<open>Characters and the string primitives of the parser\<close>

text \<open>
  The parser works on Python \<open>str\<close> values.  A character is modelled as a HOL
  \<^typ>\<open>char\<close>, read as the code point of the same number (U+0000 to U+00FF), and the
  character classes below are the ones Python applies to these code points; text with
  code points above U+00FF is outside the model.
\<close>

definition ord :: "char \<Rightarrow> nat" where
  "ord c = of_char c"

text \<open>\<open>str.isspace\<close> on one character; also the class \<open>\s\<close> of the \<open>re\<close> module.\<close>

definition is_space :: "char \<Rightarrow> bool" where
  "is_space c \<longleftrightarrow> (9 \<le> ord c \<and> ord c \<le> 13) \<or> (28 \<le> ord c \<and> ord c \<le> 32)
     \<or> ord c = 133 \<or> ord c = 160"

text \<open>The line boundaries of \<open>str.splitlines\<close>.\<close>

definition is_linebreak :: "char \<Rightarrow> bool" where
  "is_linebreak c \<longleftrightarrow> (10 \<le> ord c \<and> ord c \<le> 13) \<or> (28 \<le> ord c \<and> ord c \<le> 30)
     \<or> ord c = 133"

text \<open>The class \<open>\d\<close>: decimal digits.\<close>

definition is_digit :: "char \<Rightarrow> bool" where
  "is_digit c \<longleftrightarrow> 48 \<le> ord c \<and> ord c \<le> 57"

text \<open>\<open>str.isalnum\<close> on one character, and the class \<open>\w\<close> (alphanumeric or underscore).\<close>

definition is_alnum :: "char \<Rightarrow> bool" where
  "is_alnum c \<longleftrightarrow> is_digit c \<or> (65 \<le> ord c \<and> ord c \<le> 90) \<or> (97 \<le> ord c \<and> ord c \<le> 122)
     \<or> ord c = 170 \<or> ord c = 178 \<or> ord c = 179 \<or> ord c = 181 \<or> ord c = 185 \<or> ord c = 186
     \<or> (188 \<le> ord c \<and> ord c \<le> 190)
     \<or> (192 \<le> ord c \<and> ord c \<noteq> 215 \<and> ord c \<noteq> 247)"

definition is_word :: "char \<Rightarrow> bool" where
  "is_word c \<longleftrightarrow> is_alnum c \<or> c = CHR ''_''"

text \<open>The lower-case mapping of one character, as \<open>re.IGNORECASE\<close> applies it.\<close>

definition to_lower :: "char \<Rightarrow> char" where
  "to_lower c =
     (if (65 \<le> ord c \<and> ord c \<le> 90) \<or> (192 \<le> ord c \<and> ord c \<le> 222 \<and> ord c \<noteq> 215)
      then char_of (ord c + 32) else c)"

text \<open>\<open>str.strip()\<close> without argument: leading and trailing whitespace removed.\<close>

definition strip :: "string \<Rightarrow> string" where
  "strip s = rev (dropWhile is_space (rev (dropWhile is_space s)))"

text \<open>
  \<open>str.splitlines()\<close>: the text is cut at every line boundary, \<open>\r\n\<close> counting as one;
  the boundaries are dropped, and a text that ends with a boundary has no empty last line.
  The first argument is the current line read so far, reversed.
\<close>

fun splitlines_from :: "string \<Rightarrow> string \<Rightarrow> string list" where
  "splitlines_from acc [] = (if acc = [] then [] else [rev acc])"
| "splitlines_from acc [c] =
     (if is_linebreak c then [rev acc] else splitlines_from (c # acc) [])"
| "splitlines_from acc (c # d # cs) =
     (if is_linebreak c then
        rev acc # (if c = CHR 0x0D \<and> d = CHR 0x0A then splitlines_from [] cs
                   else splitlines_from [] (d # cs))
      else splitlines_from (c # acc) (d # cs))"

definition splitlines :: "string \<Rightarrow> string list" where
  "splitlines s = splitlines_from [] s"

section \<open>Regular expressions of the \<open>re\<close> module\<close>

text \<open>
  A position in the subject string is a cursor: the text before it, reversed, and the
  text after it.  \<open>rx_step r c\<close> lists every cursor at which a match of \<open>r\<close> that
  starts at \<open>c\<close> can end.
\<close>

type_synonym cursor = "string \<times> string"

datatype rx =
    Eps
  | Chr "char \<Rightarrow> bool"
  | Seq rx rx
  | Alt rx rx
  | Star rx
  | Bos
  | Eos
  | WordB

text \<open>\<open>r+\<close> is \<open>r\<close> followed by \<open>r*\<close>.\<close>

definition Plus :: "rx \<Rightarrow> rx" where
  "Plus r = Seq r (Star r)"

text \<open>A literal character, and a literal character under \<open>re.IGNORECASE\<close>.\<close>

definition lit :: "char \<Rightarrow> rx" where
  "lit c = Chr (\<lambda>x. x = c)"

definition ilit :: "char \<Rightarrow> rx" where
  "ilit c = Chr (\<lambda>x. to_lower x = to_lower c)"

primrec lits :: "(char \<Rightarrow> rx) \<Rightarrow> string \<Rightarrow> rx" where
  "lits f [] = Eps"
| "lits f (c # cs) = Seq (f c) (lits f cs)"

text \<open>\<open>.\<close> without \<open>re.DOTALL\<close>: any character but the newline.\<close>

definition any_char :: rx where
  "any_char = Chr (\<lambda>x. x \<noteq> CHR 0x0A)"

text \<open>\<open>\b\<close>: exactly one of the characters before and after the cursor is a word character.\<close>

definition word_boundary :: "cursor \<Rightarrow> bool" where
  "word_boundary c \<longleftrightarrow>
     (case fst c of [] \<Rightarrow> False | x # _ \<Rightarrow> is_word x)
       \<noteq> (case snd c of [] \<Rightarrow> False | y # _ \<Rightarrow> is_word y)"

text \<open>\<open>$\<close> without \<open>re.MULTILINE\<close>: the end of the string, or just before a final newline.\<close>

definition at_end :: "cursor \<Rightarrow> bool" where
  "at_end c \<longleftrightarrow> snd c = [] \<or> snd c = [CHR 0x0A]"

text \<open>
  The iterations of \<open>r*\<close> from a cursor.  An iteration that consumes nothing is not
  repeated, so at most one iteration per remaining character is needed.
\<close>

fun star_iter :: "(cursor \<Rightarrow> cursor list) \<Rightarrow> nat \<Rightarrow> cursor \<Rightarrow> cursor list" where
  "star_iter f 0 c = [c]"
| "star_iter f (Suc n) c =
     c # concat (map (star_iter f n) (filter (\<lambda>c'. length (snd c') < length (snd c)) (f c)))"

primrec rx_step :: "rx \<Rightarrow> cursor \<Rightarrow> cursor list" where
  "rx_step Eps = (\<lambda>c. [c])"
| "rx_step (Chr p) = (\<lambda>c. case snd c of [] \<Rightarrow> [] | x # xs \<Rightarrow> if p x then [(x # fst c, xs)] else [])"
| "rx_step (Seq r1 r2) = (\<lambda>c. concat (map (rx_step r2) (rx_step r1 c)))"
| "rx_step (Alt r1 r2) = (\<lambda>c. rx_step r1 c @ rx_step r2 c)"
| "rx_step (Star r) = (\<lambda>c. star_iter (rx_step r) (length (snd c)) c)"
| "rx_step Bos = (\<lambda>c. if fst c = [] then [c] else [])"
| "rx_step Eos = (\<lambda>c. if at_end c then [c] else [])"
| "rx_step WordB = (\<lambda>c. if word_boundary c then [c] else [])"

text \<open>\<open>pattern.match(s)\<close>, as a truth value: some match starts at the beginning of \<open>s\<close>.\<close>

definition re_match :: "rx \<Rightarrow> string \<Rightarrow> bool" where
  "re_match r s \<longleftrightarrow> rx_step r ([], s) \<noteq> []"

text \<open>\<open>re.search(pattern, s)\<close>, as a truth value: some match starts at some position of \<open>s\<close>.\<close>

fun search_from :: "rx \<Rightarrow> cursor \<Rightarrow> bool" where
  "search_from r (b, []) = (rx_step r (b, []) \<noteq> [])"
| "search_from r (b, x # xs) = (rx_step r (b, x # xs) \<noteq> [] \<or> search_from r (x # b, xs))"

definition re_search :: "rx \<Rightarrow> string \<Rightarrow> bool" where
  "re_search r s = search_from r ([], s)"

section \<open>The parser\<close>

text \<open>\<open>^(\d+(?:\.\d+)*)\s+(.+)$\<close>\<close>

definition heading_pattern :: rx where
  "heading_pattern =
     Seq Bos (Seq (Seq (Plus (Chr is_digit)) (Star (Seq (lit CHR ''.'') (Plus (Chr is_digit)))))
       (Seq (Plus (Chr is_space)) (Seq (Plus any_char) Eos)))"

text \<open>\<open>\b(Figure|Fig\.)\b\<close>, compiled with \<open>re.IGNORECASE\<close>\<close>

definition figure_pattern :: rx where
  "figure_pattern =
     Seq WordB (Seq (Alt (lits ilit ''Figure'') (Seq (lits ilit ''Fig'') (ilit CHR ''.''))) WordB)"


record ParsedSection =
  heading_text :: string
  heading_level :: string
  page_start :: "int option"
  page_end :: "int option"
  order_index :: int

record ParsedFigure =
  section_index :: "int option"
  page_number :: "int option"
  caption_text :: "string option"
  fig_order_index :: int

text \<open>The test of one line in \<open>_detect_sections\<close>: the pattern matches the trimmed line.\<close>

definition is_heading :: "string \<Rightarrow> bool" where
  "is_heading line = re_match heading_pattern (strip line)"

text \<open>The loop of \<open>_detect_sections\<close>; \<open>headings\<close> is the list built so far.\<close>

fun detect_loop :: "string list \<Rightarrow> string list \<Rightarrow> string list" where
  "detect_loop [] headings = headings"
| "detect_loop (line # rest) headings =
     detect_loop rest (if is_heading line then headings @ [strip line] else headings)"

definition detect_sections :: "string list \<Rightarrow> string list" where
  "detect_sections text_lines = detect_loop text_lines []"

text \<open>The test of one line in the figure loop of \<open>parse_pdf\<close>: the pattern is searched in
  the line as it is, not trimmed.\<close>

definition is_figure :: "string \<Rightarrow> bool" where
  "is_figure line = re_search figure_pattern line"

text \<open>\<open>text = page.extract_text() or ""\<close> and the non-blank lines of the text.  A page is the
  result of \<open>extract_text\<close>, \<open>None\<close> when it gives nothing.\<close>

definition page_lines :: "string option \<Rightarrow> string list" where
  "page_lines page =
     (let text = (case page of None \<Rightarrow> [] | Some t \<Rightarrow> t)
      in filter (\<lambda>line. strip line \<noteq> []) (splitlines text))"

text \<open>The first inner loop of \<open>parse_pdf\<close>: one section per heading of the page.\<close>

fun headings_loop ::
  "int \<Rightarrow> string list \<Rightarrow> ParsedSection list \<times> int \<Rightarrow> ParsedSection list \<times> int" where
  "headings_loop page_index [] (sections, oi) = (sections, oi)"
| "headings_loop page_index (heading # rest) (sections, oi) =
     headings_loop page_index rest
       (sections @ [\<lparr>heading_text = heading, heading_level = ''H1'',
                      page_start = Some page_index, page_end = Some page_index,
                      order_index = oi\<rparr>],
        oi + 1)"

text \<open>The second inner loop of \<open>parse_pdf\<close>: one figure per matching line of the page.\<close>

fun figures_loop ::
  "int \<Rightarrow> ParsedSection list \<Rightarrow> string list \<Rightarrow> ParsedFigure list \<Rightarrow> ParsedFigure list" where
  "figures_loop page_index sections [] figures = figures"
| "figures_loop page_index sections (line # rest) figures =
     figures_loop page_index sections rest
       (if is_figure line then
          figures @ [\<lparr>section_index =
                         (if sections \<noteq> [] then Some (int (length sections) - 1) else None),
                       page_number = Some page_index,
                       caption_text = Some (strip line),
                       fig_order_index = int (length figures) + 1\<rparr>]
        else figures)"

text \<open>The loop over \<open>enumerate(reader.pages, start=1)\<close>; the state is
  \<open>(sections, figures, order_index)\<close>.\<close>

type_synonym parse_state = "ParsedSection list \<times> ParsedFigure list \<times> int"

fun pages_loop :: "int \<Rightarrow> string option list \<Rightarrow> parse_state \<Rightarrow> parse_state" where
  "pages_loop page_index [] st = st"
| "pages_loop page_index (page # rest) (sections, figures, oi) =
     (let lines = page_lines page;
          headings = detect_sections lines;
          (sections', oi') = headings_loop page_index headings (sections, oi);
          figures' = figures_loop page_index sections' lines figures
      in pages_loop (page_index + 1) rest (sections', figures', oi'))"

definition scan_pages :: "string option list \<Rightarrow> parse_state" where
  "scan_pages pages = pages_loop 1 pages ([], [], 1)"

text \<open>\<open>parse_pdf\<close> once the reader is open: the scan, then the fallback section.\<close>

definition parse_pages :: "string option list \<Rightarrow> ParsedSection list \<times> ParsedFigure list" where
  "parse_pages pages =
     (case scan_pages pages of (sections, figures, oi) \<Rightarrow>
        ((if sections = [] then
            sections @ [\<lparr>heading_text = ''Document Overview'', heading_level = ''H1'',
                           page_start = Some 1, page_end = Some (int (length pages)),
                           order_index = 1\<rparr>]
          else sections),
         figures))"

text \<open>The errors that the upload can end with: those raised by the PDF reader, by the
  file system and by the database session, the \<open>IndexError\<close> of a list access, and the
  \<open>HTTPException\<close> of the endpoint.\<close>

datatype error =
    PdfReadError
  | KeyError
  | IndexError
  | OSError string
  | DatabaseError string
  | HTTPException nat string

text \<open>
  A file as the reader sees it.  \<open>Unreadable\<close>: the constructor \<open>PdfReader\<close> raises.
  \<open>Unextractable e\<close>: the constructor returns, and reading the pages (\<open>reader.pages\<close> or
  \<open>extract_text\<close> of some page) raises \<open>e\<close>; the loop of \<open>parse_pdf\<close> then ends with this
  error and its lists are lost.  \<open>Readable pages\<close>: every page is read, and a page is the
  value of \<open>page.extract_text()\<close>.
\<close>

datatype pdf_file = Unreadable | Unextractable error | Readable "string option list"

definition parse_pdf :: "pdf_file \<Rightarrow> error + ParsedSection list \<times> ParsedFigure list" where
  "parse_pdf file_path =
     (case file_path of
        Unreadable \<Rightarrow> Inl PdfReadError
      | Unextractable e \<Rightarrow> Inl e
      | Readable pages \<Rightarrow> Inr (parse_pages pages))"

section \<open>The upload\<close>

record Document =
  doc_id :: int
  doc_manufacturer_id :: int
  doc_title :: string
  doc_original_filename :: string
  doc_storage_key :: string
  doc_uploaded_by :: int
  doc_revision_date :: "string option"
  doc_tags :: "string option"

record Section =
  sec_id :: int
  sec_document_id :: int
  sec_heading_text :: string
  sec_heading_level :: string
  sec_page_start :: "int option"
  sec_page_end :: "int option"
  sec_order_index :: int

record Figure =
  fig_document_id :: int
  fig_section_id :: "int option"
  fig_page_number :: "int option"
  fig_caption_text :: "string option"
  fig_image_storage_key :: "string option"
  fig_order_index_db :: int

record AuditLog =
  log_user_id :: int
  log_role :: string
  log_action_type :: string
  log_manufacturer_id :: "int option"
  log_document_id :: "int option"
  log_sections :: int
  log_figures :: int

record database =
  documents :: "Document list"
  sections :: "Section list"
  figures :: "Figure list"
  audit_logs :: "AuditLog list"

record upload_request =
  manufacturer_id :: int
  title :: string
  revision_date :: "string option"
  tags :: "string option"
  filename :: string
  upload_file :: pdf_file
  user_id :: int
  user_role :: string

text \<open>The identities the database gives at \<open>db.flush()\<close>: one for the document, and one for the
  section at each position of \<open>section_models\<close>.\<close>

record identities =
  new_document_id :: int
  new_section_id :: "nat \<Rightarrow> int"

definition endswith :: "string \<Rightarrow> string \<Rightarrow> bool" where
  "endswith s suffix \<longleftrightarrow>
     length suffix \<le> length s \<and> drop (length s - length suffix) s = suffix"

text \<open>
  What the file system and the database session do during one request; each field is the
  error raised by the step, or \<open>None\<close> when the step succeeds.
  \<open>temp_write name\<close>: creating the temporary directory and writing the upload to the
  file \<open>name\<close> in it (a \<open>FileNotFoundError\<close>, for instance, when \<open>name\<close> has a directory part
  that does not exist there).
  \<open>storage_copy name\<close>: the directory creation and the copy of \<open>save_pdf\<close>.
  \<open>flush_document\<close>, \<open>flush_sections\<close>, \<open>commit\<close>: the two calls of \<open>db.flush()\<close> and the call
  of \<open>db.commit()\<close>.
\<close>

record environment =
  temp_write :: "string \<Rightarrow> error option"
  storage_copy :: "string \<Rightarrow> error option"
  flush_document :: "error option"
  flush_sections :: "error option"
  commit :: "error option"

text \<open>\<open>save_pdf\<close>: the copy into the storage, and the storage key it returns.\<close>

definition save_pdf :: "environment \<Rightarrow> string \<Rightarrow> error + string" where
  "save_pdf env name =
     (let safe_name = map (\<lambda>c. if c = CHR '' '' then CHR ''_'' else c) name;
          storage_key = ''pdfs/'' @ safe_name
      in case storage_copy env name of
           Some e \<Rightarrow> Inl e
         | None \<Rightarrow> Inr storage_key)"

text \<open>\<open>xs[i]\<close> on a Python list: an index below zero is read from the end of the list, and an
  index outside the list raises.\<close>

definition py_index :: "'a list \<Rightarrow> int \<Rightarrow> error + 'a" where
  "py_index xs i =
     (if 0 \<le> i \<and> i < int (length xs) then Inr (xs ! nat i)
      else if i < 0 \<and> - int (length xs) \<le> i then Inr (xs ! nat (int (length xs) + i))
      else Inl IndexError)"

text \<open>The loop that builds \<open>section_models\<close>; \<open>k\<close> is the position of the next section.\<close>

fun section_models_loop ::
  "identities \<Rightarrow> nat \<Rightarrow> ParsedSection list \<Rightarrow> Section list \<Rightarrow> Section list" where
  "section_models_loop ids k [] section_models = section_models"
| "section_models_loop ids k (parsed # rest) section_models =
     section_models_loop ids (Suc k) rest
       (section_models @ [\<lparr>sec_id = new_section_id ids k,
                             sec_document_id = new_document_id ids,
                             sec_heading_text = heading_text parsed,
                             sec_heading_level = heading_level parsed,
                             sec_page_start = page_start parsed,
                             sec_page_end = page_end parsed,
                             sec_order_index = order_index parsed\<rparr>])"

text \<open>The section reference of one figure, guarded as in \<open>upload_document\<close>.\<close>

definition resolve_section_id :: "Section list \<Rightarrow> ParsedFigure \<Rightarrow> error + int option" where
  "resolve_section_id section_models parsed =
     (case section_index parsed of
        None \<Rightarrow> Inr None
      | Some i \<Rightarrow>
          if i < int (length section_models) then
            (case py_index section_models i of
               Inl e \<Rightarrow> Inl e
             | Inr s \<Rightarrow> Inr (Some (sec_id s)))
          else Inr None)"

definition figure_model :: "int \<Rightarrow> int option \<Rightarrow> ParsedFigure \<Rightarrow> Figure" where
  "figure_model document_id section_id parsed =
     \<lparr>fig_document_id = document_id, fig_section_id = section_id,
      fig_page_number = page_number parsed, fig_caption_text = caption_text parsed,
      fig_image_storage_key = None, fig_order_index_db = fig_order_index parsed\<rparr>"

text \<open>The loop that builds \<open>figure_models\<close>.\<close>

fun figure_models_loop ::
  "int \<Rightarrow> Section list \<Rightarrow> ParsedFigure list \<Rightarrow> Figure list \<Rightarrow> error + Figure list" where
  "figure_models_loop document_id section_models [] figure_models = Inr figure_models"
| "figure_models_loop document_id section_models (parsed # rest) figure_models =
     (case resolve_section_id section_models parsed of
        Inl e \<Rightarrow> Inl e
      | Inr section_id \<Rightarrow>
          figure_models_loop document_id section_models rest
            (figure_models @ [figure_model document_id section_id parsed]))"

text \<open>
  \<open>upload_document\<close>, for the admin user of the request.  The result is the response or the
  error raised, and the database after the request.  The steps run in the order of the
  source: the check of the file name, the temporary file, \<open>save_pdf\<close>, \<open>parse_pdf\<close>, the
  document and its flush, the sections and their flush, the figures, the commit.  The rows
  reach the database at \<open>db.commit()\<close>; an error at any step before ends the request and
  leaves the database as it was.  The files written on the way are not part of the
  database and are not kept in the result.
\<close>

definition upload_document ::
  "environment \<Rightarrow> identities \<Rightarrow> upload_request \<Rightarrow> database \<Rightarrow> (error + Document) \<times> database"
  where
  "upload_document env ids req db =
     (if \<not> endswith (map to_lower (filename req)) ''.pdf'' then
        (Inl (HTTPException 400 ''Only PDF files allowed''), db)
      else
        case temp_write env (filename req) of
          Some e \<Rightarrow> (Inl e, db)
        | None \<Rightarrow>
        case save_pdf env (filename req) of
          Inl e \<Rightarrow> (Inl e, db)
        | Inr storage_key \<Rightarrow>
        case parse_pdf (upload_file req) of
          Inl e \<Rightarrow> (Inl e, db)
        | Inr (parsed_sections, parsed_figures) \<Rightarrow>
            let document =
                  \<lparr>doc_id = new_document_id ids,
                   doc_manufacturer_id = manufacturer_id req,
                   doc_title = title req,
                   doc_original_filename = filename req,
                   doc_storage_key = storage_key,
                   doc_uploaded_by = user_id req,
                   doc_revision_date = revision_date req,
                   doc_tags = tags req\<rparr>
            in
            case flush_document env of
              Some e \<Rightarrow> (Inl e, db)
            | None \<Rightarrow>
            let section_models = section_models_loop ids 0 parsed_sections [] in
            case flush_sections env of
              Some e \<Rightarrow> (Inl e, db)
            | None \<Rightarrow>
            case figure_models_loop (doc_id document) section_models parsed_figures [] of
              Inl e \<Rightarrow> (Inl e, db)
            | Inr figure_models \<Rightarrow>
            case commit env of
              Some e \<Rightarrow> (Inl e, db)
            | None \<Rightarrow>
                (Inr document,
                 db\<lparr>documents := documents db @ [document],
                    sections := sections db @ section_models,
                    figures := figures db @ figure_models,
                    audit_logs := audit_logs db @
                      [\<lparr>log_user_id = user_id req, log_role = user_role req,
                        log_action_type = ''UPLOAD_DOC'',
                        log_manufacturer_id = Some (manufacturer_id req),
                        log_document_id = Some (doc_id document),
                        log_sections = int (length section_models),
                        log_figures = int (length figure_models)\<rparr>]\<rparr>))"

section \<open>Reference descriptions\<close>

text \<open>
  The meaning of a pattern as a relation between cursors: \<open>(c, c')\<close> is in \<open>rx_rel r\<close> when
  \<open>r\<close> matches the text between \<open>c\<close> and \<open>c'\<close>.  The matcher is compared with it below.
\<close>

primrec rx_rel :: "rx \<Rightarrow> (cursor \<times> cursor) set" where
  "rx_rel Eps = Id"
| "rx_rel (Chr p) = {((b, x # xs), (x # b, xs)) | b x xs. p x}"
| "rx_rel (Seq r1 r2) = rx_rel r1 O rx_rel r2"
| "rx_rel (Alt r1 r2) = rx_rel r1 \<union> rx_rel r2"
| "rx_rel (Star r) = (rx_rel r)\<^sup>*"
| "rx_rel Bos = {(c, c) | c. fst c = []}"
| "rx_rel Eos = {(c, c) | c. at_end c}"
| "rx_rel WordB = {(c, c) | c. word_boundary c}"

text \<open>The pieces of a string between the occurrences of a separator, as \<open>str.split(sep)\<close>.\<close>

fun split_on :: "char \<Rightarrow> string \<Rightarrow> string list" where
  "split_on d [] = [[]]"
| "split_on d (c # cs) =
     (if c = d then [] # split_on d cs
      else (case split_on d cs of [] \<Rightarrow> [[c]] | g # gs \<Rightarrow> (c # g) # gs))"

text \<open>A numeric outline label, in the words of the specification: one or more integer
  groups separated by dots, such as \<open>1\<close>, \<open>2.3\<close> or \<open>4.10.1\<close>.\<close>

definition outline_label :: "string \<Rightarrow> bool" where
  "outline_label s = list_all (\<lambda>g. g \<noteq> [] \<and> list_all is_digit g) (split_on CHR ''.'' s)"

text \<open>Every way to cut a list in two.\<close>

definition cuts :: "'a list \<Rightarrow> ('a list \<times> 'a list) list" where
  "cuts s = map (\<lambda>k. (take k s, drop k s)) [0..<Suc (length s)]"

text \<open>The heading rule in the words of the specification: an outline label, followed by
  whitespace, followed by one or more remaining characters.\<close>

definition spec_heading :: "string \<Rightarrow> bool" where
  "spec_heading s =
     list_ex (\<lambda>(label, rest). outline_label label \<and>
        list_ex (\<lambda>(ws, title). ws \<noteq> [] \<and> list_all is_space ws \<and> title \<noteq> []) (cuts rest))
       (cuts s)"

text \<open>The headings of a document with the page of each, in reading order; \<open>p\<close> is the number
  of the first page of the list.\<close>

fun page_headings :: "int \<Rightarrow> string option list \<Rightarrow> (int \<times> string) list" where
  "page_headings p [] = []"
| "page_headings p (page # rest) =
     map (Pair p) (map strip (filter is_heading (page_lines page))) @ page_headings (p + 1) rest"

text \<open>The sections of a list of headings, numbered upwards from \<open>oi\<close>.\<close>

fun number_sections :: "int \<Rightarrow> (int \<times> string) list \<Rightarrow> ParsedSection list" where
  "number_sections oi [] = []"
| "number_sections oi ((p, h) # rest) =
     \<lparr>heading_text = h, heading_level = ''H1'', page_start = Some p, page_end = Some p,
      order_index = oi\<rparr> # number_sections (oi + 1) rest"

text \<open>The caption lines of a document in reading order, each with its page and with the number
  of headings on the pages up to and including its own; \<open>n\<close> headings precede the list.\<close>

fun page_captions :: "int \<Rightarrow> nat \<Rightarrow> string option list \<Rightarrow> (int \<times> nat \<times> string) list" where
  "page_captions p n [] = []"
| "page_captions p n (page # rest) =
     map (\<lambda>line. (p, n + length (filter is_heading (page_lines page)), strip line))
       (filter is_figure (page_lines page))
     @ page_captions (p + 1) (n + length (filter is_heading (page_lines page))) rest"

text \<open>The position of the last of \<open>n\<close> sections, if there is one.\<close>

definition last_index :: "nat \<Rightarrow> int option" where
  "last_index n = (if n = 0 then None else Some (int n - 1))"

text \<open>The figures of a list of caption lines, numbered upwards from \<open>k\<close>.\<close>

fun number_figures :: "int \<Rightarrow> (int \<times> nat \<times> string) list \<Rightarrow> ParsedFigure list" where
  "number_figures k [] = []"
| "number_figures k ((p, n, caption) # rest) =
     \<lparr>section_index = last_index n, page_number = Some p, caption_text = Some caption,
      fig_order_index = k\<rparr> # number_figures (k + 1) rest"

section \<open>The matcher computes the meaning of a pattern\<close>

lemma rx_rel_moves:
  "(c, c') \<in> rx_rel r \<Longrightarrow> \<exists>w. snd c = w @ snd c' \<and> fst c' = rev w @ fst c"
proof (induction r arbitrary: c c')
  case (Star r)
  from Star.prems have "(c, c') \<in> (rx_rel r)\<^sup>*" by simp
  then show ?case
  proof (induction rule: rtrancl_induct)
    case base
    show ?case by simp
  next
    case (step y z)
    from Star.IH [OF step.hyps(2)] obtain w2 where w2: "snd y = w2 @ snd z" "fst z = rev w2 @ fst y"
      by blast
    from step.IH obtain w1 where w1: "snd c = w1 @ snd y" "fst y = rev w1 @ fst c" by blast
    from w1 w2 have "snd c = (w1 @ w2) @ snd z \<and> fst z = rev (w1 @ w2) @ fst c" by simp
    then show ?case by blast
  qed
next
  case (Seq r1 r2)
  from Seq.prems obtain y where y: "(c, y) \<in> rx_rel r1" "(y, c') \<in> rx_rel r2" by auto
  from Seq.IH(1) [OF y(1)] obtain w1 where w1: "snd c = w1 @ snd y" "fst y = rev w1 @ fst c" by blast
  from Seq.IH(2) [OF y(2)] obtain w2 where w2: "snd y = w2 @ snd c'" "fst c' = rev w2 @ fst y" by blast
  from w1 w2 have "snd c = (w1 @ w2) @ snd c' \<and> fst c' = rev (w1 @ w2) @ fst c" by simp
  then show ?case by blast
next
  case (Chr p)
  then obtain b x xs where "c = (b, x # xs)" "c' = (x # b, xs)" by auto
  then have "snd c = [x] @ snd c' \<and> fst c' = rev [x] @ fst c" by simp
  then show ?case by blast
qed auto

lemma rx_rel_no_progress:
  assumes "(c, c') \<in> rx_rel r" and "length (snd c) \<le> length (snd c')"
  shows "c' = c"
proof -
  from rx_rel_moves [OF assms(1)] obtain w where w: "snd c = w @ snd c'" "fst c' = rev w @ fst c"
    by blast
  with assms(2) have "w = []" by simp
  with w show ?thesis by (simp add: prod_eq_iff)
qed

lemma rx_rel_length: "(c, c') \<in> rx_rel r \<Longrightarrow> length (snd c') \<le> length (snd c)"
  using rx_rel_moves [of c c' r] by auto

lemma star_iter_sound:
  assumes f: "\<And>x. set (f x) \<subseteq> R `` {x}"
  shows "c' \<in> set (star_iter f n c) \<Longrightarrow> (c, c') \<in> R\<^sup>*"
proof (induction n arbitrary: c)
  case 0
  then show ?case by simp
next
  case (Suc n)
  from Suc.prems consider "c' = c"
    | y where "y \<in> set (f c)" "c' \<in> set (star_iter f n y)"
    by auto
  then show ?case
  proof cases
    case 1
    then show ?thesis by simp
  next
    case 2
    from 2(1) f have "(c, y) \<in> R" by blast
    moreover from Suc.IH [OF 2(2)] have "(y, c') \<in> R\<^sup>*" .
    ultimately show ?thesis by (rule converse_rtrancl_into_rtrancl)
  qed
qed

lemma star_iter_self: "c \<in> set (star_iter f n c)"
  by (cases n) simp_all

lemma star_iter_complete:
  assumes f: "\<And>x. R `` {x} \<subseteq> set (f x)"
    and stay: "\<And>x y. (x, y) \<in> R \<Longrightarrow> length (snd x) \<le> length (snd y) \<Longrightarrow> y = x"
  shows "(c, c') \<in> R\<^sup>* \<Longrightarrow> length (snd c) \<le> n \<Longrightarrow> c' \<in> set (star_iter f n c)"
proof (induction arbitrary: n rule: converse_rtrancl_induct)
  case base
  show ?case by (rule star_iter_self)
next
  case (step x y)
  show ?case
  proof (cases "length (snd y) < length (snd x)")
    case False
    with stay [OF step.hyps(1)] have "y = x" by simp
    with step.IH [of n] step.prems show ?thesis by simp
  next
    case True
    with step.prems obtain m where m: "n = Suc m" "length (snd y) \<le> m"
      by (cases n) auto
    from step.hyps(1) f have "y \<in> set (f x)" by blast
    with True have "y \<in> set (filter (\<lambda>c'. length (snd c') < length (snd x)) (f x))" by simp
    with step.IH [OF m(2)] have "\<exists>z \<in> set (filter (\<lambda>c'. length (snd c') < length (snd x)) (f x)).
        c' \<in> set (star_iter f m z)" by blast
    with m(1) show ?thesis by simp
  qed
qed

lemma rx_step_rel: "set (rx_step r c) = rx_rel r `` {c}"
proof (induction r arbitrary: c)
  case (Star r)
  have "set (star_iter (rx_step r) (length (snd c)) c) = (rx_rel r)\<^sup>* `` {c}"
  proof (intro set_eqI iffI)
    fix c' assume "c' \<in> set (star_iter (rx_step r) (length (snd c)) c)"
    then have "(c, c') \<in> (rx_rel r)\<^sup>*"
      by (rule star_iter_sound [rotated]) (simp add: Star.IH)
    then show "c' \<in> (rx_rel r)\<^sup>* `` {c}" by simp
  next
    fix c' assume "c' \<in> (rx_rel r)\<^sup>* `` {c}"
    then have "(c, c') \<in> (rx_rel r)\<^sup>*" by simp
    then show "c' \<in> set (star_iter (rx_step r) (length (snd c)) c)"
      by (rule star_iter_complete [rotated 2]) (simp_all add: Star.IH rx_rel_no_progress)
  qed
  then show ?case by simp
next
  case (Chr p)
  show ?case by (cases c) (auto split: list.splits)
next
  case (Seq r1 r2)
  then show ?case by auto
qed auto

lemma re_match_rel: "re_match r s \<longleftrightarrow> (\<exists>c'. (([], s), c') \<in> rx_rel r)"
proof -
  have "re_match r s \<longleftrightarrow> set (rx_step r ([], s)) \<noteq> {}" by (simp add: re_match_def)
  then show ?thesis by (auto simp: rx_step_rel)
qed

section \<open>The figure rule\<close>

lemma figure_rule_fig_dot_digit: "is_figure ''see fig.4''"
  by code_simp

lemma figure_rule_whole_word: "is_figure ''See Figure 4 below'' \<and> \<not> is_figure ''Figures''"
  by code_simp

text \<open>
  C1.  The claim says that a line with the lower-case token \<open>fig.\<close>, such as
  \<open>see fig. 4\<close>, is classified as a figure caption.  The pattern ends in \<open>\b\<close>, and after the
  dot of \<open>Fig.\<close> that holds only before a word character: on the line \<open>see fig. 4\<close> the
  token is followed by a blank, no position of the line matches, and the parser
  produces no figure for it.
\<close>

theorem figure_rule_fig_dot_blank:
  "\<not> is_figure ''see fig. 4'' \<and> snd (parse_pages [Some ''see fig. 4'']) = []"
  by code_simp

section \<open>The loops of the parser\<close>

lemma detect_loop_eq: "detect_loop ls hs = hs @ map strip (filter is_heading ls)"
  by (induction ls arbitrary: hs) simp_all

lemma detect_sections_eq: "detect_sections ls = map strip (filter is_heading ls)"
  by (simp add: detect_sections_def detect_loop_eq)

lemma number_sections_append:
  "number_sections oi (xs @ ys) = number_sections oi xs @ number_sections (oi + int (length xs)) ys"
  by (induction oi xs rule: number_sections.induct) (simp_all add: add.assoc)

lemma number_figures_append:
  "number_figures k (xs @ ys) = number_figures k xs @ number_figures (k + int (length xs)) ys"
  by (induction k xs rule: number_figures.induct) (simp_all add: add.assoc)

lemma length_number_sections [simp]: "length (number_sections oi hs) = length hs"
  by (induction oi hs rule: number_sections.induct) simp_all

lemma length_number_figures [simp]: "length (number_figures k cs) = length cs"
  by (induction k cs rule: number_figures.induct) simp_all

lemma headings_loop_eq:
  "headings_loop p hs (secs, oi) =
     (secs @ number_sections oi (map (Pair p) hs), oi + int (length hs))"
  by (induction hs arbitrary: secs oi) (simp_all add: add.assoc)

lemma figures_loop_eq:
  "figures_loop p secs ls figs =
     figs @ number_figures (int (length figs) + 1)
              (map (\<lambda>line. (p, length secs, strip line)) (filter is_figure ls))"
proof (induction ls arbitrary: figs)
  case Nil
  show ?case by simp
next
  case (Cons line rest)
  show ?case
    by (simp add: Cons.IH last_index_def add.commute)
qed

lemma map_snd_page_headings:
  "map snd (page_headings p pages) =
     concat (map (\<lambda>page. map strip (filter is_heading (page_lines page))) pages)"
  by (induction pages arbitrary: p) (simp_all add: comp_def)

lemma pages_loop_eq:
  "pages_loop p pages (secs, figs, oi) =
     (secs @ number_sections oi (page_headings p pages),
      figs @ number_figures (int (length figs) + 1) (page_captions p (length secs) pages),
      oi + int (length (page_headings p pages)))"
proof (induction pages arbitrary: p secs figs oi)
  case Nil
  show ?case by simp
next
  case (Cons page rest)
  show ?case
    by (simp add: Cons.IH headings_loop_eq figures_loop_eq detect_sections_eq
        number_sections_append number_figures_append Let_def ac_simps)
qed

lemma scan_pages_eq:
  "scan_pages pages =
     (number_sections 1 (page_headings 1 pages),
      number_figures 1 (page_captions 1 0 pages),
      1 + int (length (page_headings 1 pages)))"
  by (simp add: scan_pages_def pages_loop_eq)

lemma nth_number_sections:
  "i < length hs \<Longrightarrow>
     number_sections oi hs ! i =
       \<lparr>heading_text = snd (hs ! i), heading_level = ''H1'', page_start = Some (fst (hs ! i)),
        page_end = Some (fst (hs ! i)), order_index = oi + int i\<rparr>"
proof (induction oi hs arbitrary: i rule: number_sections.induct)
  case (1 oi)
  then show ?case by simp
next
  case (2 oi p h rest)
  then show ?case by (cases i) (simp_all add: add.assoc)
qed

lemma nth_number_figures:
  "i < length cs \<Longrightarrow>
     number_figures k cs ! i =
       \<lparr>section_index = last_index (fst (snd (cs ! i))), page_number = Some (fst (cs ! i)),
        caption_text = Some (snd (snd (cs ! i))), fig_order_index = k + int i\<rparr>"
proof (induction k cs arbitrary: i rule: number_figures.induct)
  case (1 k)
  then show ?case by simp
next
  case (2 k p n caption rest)
  then show ?case by (cases i) (simp_all add: add.assoc)
qed

lemma map_order_index_number_sections:
  "map order_index (number_sections oi hs) = map (\<lambda>i. oi + int i) [0..<length hs]"
  by (rule nth_equalityI) (simp_all add: nth_number_sections)

lemma map_fig_order_index_number_figures:
  "map fig_order_index (number_figures k cs) = map (\<lambda>i. k + int i) [0..<length cs]"
  by (rule nth_equalityI) (simp_all add: nth_number_figures)

lemma set_number_figures:
  "f \<in> set (number_figures k cs) \<Longrightarrow>
     \<exists>p n caption. (p, n, caption) \<in> set cs \<and> section_index f = last_index n
        \<and> page_number f = Some p \<and> caption_text f = Some caption"
  by (induction k cs rule: number_figures.induct) auto

lemma length_page_headings_take:
  "length (page_headings p pages) =
     length (concat (map (\<lambda>page. filter is_heading (page_lines page)) pages))"
  by (induction pages arbitrary: p) simp_all

lemma set_page_captions:
  "(q, n, caption) \<in> set (page_captions p n0 pages) \<Longrightarrow>
     p \<le> q \<and> q < p + int (length pages)
     \<and> n = n0 + length (page_headings p (take (Suc (nat (q - p))) pages))
     \<and> (\<exists>line \<in> set (page_lines (pages ! nat (q - p))). is_figure line \<and> caption = strip line)"
proof (induction pages arbitrary: p n0)
  case Nil
  then show ?case by simp
next
  case (Cons page rest)
  from Cons.prems consider
      (here) "q = p" "n = n0 + length (filter is_heading (page_lines page))"
        "\<exists>line \<in> set (page_lines page). is_figure line \<and> caption = strip line"
    | (later) "(q, n, caption) \<in> set (page_captions (p + 1)
          (n0 + length (filter is_heading (page_lines page))) rest)"
    by auto
  then show ?case
  proof cases
    case here
    then show ?thesis by simp
  next
    case later
    from Cons.IH [OF later] have ih:
      "p + 1 \<le> q" "q < p + 1 + int (length rest)"
      "n = n0 + length (filter is_heading (page_lines page))
             + length (page_headings (p + 1) (take (Suc (nat (q - (p + 1)))) rest))"
      "\<exists>line \<in> set (page_lines (rest ! nat (q - (p + 1)))). is_figure line \<and> caption = strip line"
      by simp_all
    from ih(1) have eq: "nat (q - p) = Suc (nat (q - (p + 1)))" by simp
    show ?thesis using ih by (simp add: eq)
  qed
qed

section \<open>The upload loops\<close>

lemma parse_pages_eq:
  "parse_pages pages =
     (if page_headings 1 pages = [] then
        [\<lparr>heading_text = ''Document Overview'', heading_level = ''H1'', page_start = Some 1,
          page_end = Some (int (length pages)), order_index = 1\<rparr>]
      else number_sections 1 (page_headings 1 pages),
      number_figures 1 (page_captions 1 0 pages))"
proof -
  have "number_sections 1 hs = [] \<longleftrightarrow> hs = []" for hs
    using length_number_sections [of 1 hs] by (metis length_0_conv)
  then show ?thesis by (simp add: parse_pages_def scan_pages_eq)
qed

lemma length_section_models_loop:
  "length (section_models_loop ids k ps acc) = length acc + length ps"
  by (induction ps arbitrary: k acc) simp_all

lemma section_models_loop_old:
  "i < length acc \<Longrightarrow> section_models_loop ids k ps acc ! i = acc ! i"
  by (induction ps arbitrary: k acc) (simp_all add: nth_append)

lemma section_models_loop_new:
  "i < length ps \<Longrightarrow>
     section_models_loop ids k ps acc ! (length acc + i) =
       \<lparr>sec_id = new_section_id ids (k + i), sec_document_id = new_document_id ids,
        sec_heading_text = heading_text (ps ! i), sec_heading_level = heading_level (ps ! i),
        sec_page_start = page_start (ps ! i), sec_page_end = page_end (ps ! i),
        sec_order_index = order_index (ps ! i)\<rparr>"
proof (induction ps arbitrary: k acc i)
  case Nil
  then show ?case by simp
next
  case (Cons parsed rest)
  show ?case
  proof (cases i)
    case 0
    then show ?thesis by (simp add: section_models_loop_old)
  next
    case (Suc j)
    with Cons.prems have "j < length rest" by simp
    from Cons.IH [OF this, of "Suc k" "acc @ [x]" for x] Suc show ?thesis by simp
  qed
qed

lemma section_models_nth:
  "i < length ps \<Longrightarrow>
     section_models_loop ids 0 ps [] ! i =
       \<lparr>sec_id = new_section_id ids i, sec_document_id = new_document_id ids,
        sec_heading_text = heading_text (ps ! i), sec_heading_level = heading_level (ps ! i),
        sec_page_start = page_start (ps ! i), sec_page_end = page_end (ps ! i),
        sec_order_index = order_index (ps ! i)\<rparr>"
  using section_models_loop_new [of i ps ids 0 "[]"] by simp

lemma resolve_last_index:
  "section_index f = last_index n \<Longrightarrow> n \<le> length sms \<Longrightarrow>
     resolve_section_id sms f = Inr (if n = 0 then None else Some (sec_id (sms ! (n - 1))))"
  by (auto simp: resolve_section_id_def last_index_def py_index_def nat_diff_distrib)

lemma figure_models_loop_eq:
  "\<forall>f \<in> set figs. resolve_section_id sms f = Inr (r f) \<Longrightarrow>
     figure_models_loop d sms figs acc = Inr (acc @ map (\<lambda>f. figure_model d (r f) f) figs)"
  by (induction figs arbitrary: acc) simp_all

section \<open>Facts about the parsed figures and their resolution\<close>

lemma page_headings_append:
  "page_headings p (xs @ ys) = page_headings p xs @ page_headings (p + int (length xs)) ys"
  by (induction xs arbitrary: p) (simp_all add: ac_simps)

lemma page_headings_take_drop:
  "page_headings p pages =
     page_headings p (take k pages) @ page_headings (p + int (length (take k pages))) (drop k pages)"
  using page_headings_append [of p "take k pages" "drop k pages"] by simp

lemma length_page_headings_prefix:
  "length (page_headings p (take k pages)) \<le> length (page_headings p pages)"
  using arg_cong [OF page_headings_take_drop [of p pages k], of length] by simp

lemma set_page_headings:
  "(q, h) \<in> set (page_headings p pages) \<longleftrightarrow>
     p \<le> q \<and> q < p + int (length pages)
     \<and> h \<in> set (detect_sections (page_lines (pages ! nat (q - p))))"
proof (induction pages arbitrary: p)
  case Nil
  show ?case by simp
next
  case (Cons page rest)
  have eq: "nat (q - p) = Suc (nat (q - (p + 1)))" if "p + 1 \<le> q"
    using that by simp
  have ih: "(q, h) \<in> set (page_headings (p + 1) rest) \<longleftrightarrow>
      p + 1 \<le> q \<and> q < p + 1 + int (length rest)
      \<and> h \<in> set (detect_sections (page_lines (rest ! nat (q - (p + 1)))))"
    by (rule Cons.IH)
  show ?case
  proof (cases "q = p")
    case True
    with ih have "(q, h) \<notin> set (page_headings (p + 1) rest)" by simp
    with True show ?thesis by (auto simp: detect_sections_eq)
  next
    case False
    then show ?thesis by (auto simp: ih detect_sections_eq eq)
  qed
qed

lemma parsed_figure_facts:
  assumes "f \<in> set (snd (parse_pages pages))"
  shows "\<exists>q. page_number f = Some q \<and> 1 \<le> q \<and> q \<le> int (length pages)
           \<and> section_index f = last_index (length (page_headings 1 (take (nat q) pages)))
           \<and> (\<exists>line \<in> set (page_lines (pages ! nat (q - 1))).
                 is_figure line \<and> caption_text f = Some (strip line))"
proof -
  from assms have "f \<in> set (number_figures 1 (page_captions 1 0 pages))"
    by (simp add: parse_pages_eq)
  from set_number_figures [OF this] obtain q n caption where
    c: "(q, n, caption) \<in> set (page_captions 1 0 pages)" and
    f: "section_index f = last_index n" "page_number f = Some q" "caption_text f = Some caption"
    by blast
  from set_page_captions [OF c] have q: "1 \<le> q" "q < 1 + int (length pages)"
    and n: "n = length (page_headings 1 (take (Suc (nat (q - 1))) pages))"
    and l: "\<exists>line \<in> set (page_lines (pages ! nat (q - 1))). is_figure line \<and> caption = strip line"
    by simp_all
  from q(1) have "Suc (nat (q - 1)) = nat q" by simp
  with n have "n = length (page_headings 1 (take (nat q) pages))" by simp
  with f q l show ?thesis by auto
qed

lemma length_parsed_sections:
  "length (page_headings 1 pages) \<le> length (fst (parse_pages pages))"
  by (simp add: parse_pages_eq)

lemma resolve_parsed:
  assumes "f \<in> set (snd (parse_pages pages))"
  shows "resolve_section_id (section_models_loop ids 0 (fst (parse_pages pages)) []) f =
           Inr (map_option (\<lambda>i. new_section_id ids (nat i)) (section_index f))"
proof -
  let ?sms = "section_models_loop ids 0 (fst (parse_pages pages)) []"
  from parsed_figure_facts [OF assms] obtain q where
    f: "section_index f = last_index (length (page_headings 1 (take (nat q) pages)))"
    by blast
  let ?n = "length (page_headings 1 (take (nat q) pages))"
  have le: "?n \<le> length (fst (parse_pages pages))"
    using length_page_headings_prefix [of 1 "nat q" pages] length_parsed_sections [of pages]
    by simp
  then have "?n \<le> length ?sms" by (simp add: length_section_models_loop)
  from resolve_last_index [OF f this]
  have r: "resolve_section_id ?sms f = Inr (if ?n = 0 then None else Some (sec_id (?sms ! (?n - 1))))" .
  show ?thesis
  proof (cases "?n = 0")
    case True
    with r f show ?thesis by (simp add: last_index_def)
  next
    case False
    then have "0 < ?n" by simp
    with le have "?n - 1 < length (fst (parse_pages pages))" by linarith
    from section_models_nth [OF this, of ids] have "sec_id (?sms ! (?n - 1)) = new_section_id ids (?n - 1)"
      by simp
    moreover have "nat (int ?n - 1) = ?n - 1" by simp
    ultimately show ?thesis using r f False by (simp add: last_index_def)
  qed
qed

section \<open>Sections and order indices\<close>

text \<open>
  C5.  Every detected heading gives a section whose \<open>page_start\<close> and \<open>page_end\<close> are both the
  number, counted from 1, of the page on which the heading line was found, and whose
  \<open>order_index\<close> is its position, counted from 1, among all the headings of the document:
  the \<open>i\<close>-th heading of the document (from 0) is the \<open>i\<close>-th section of the output.
\<close>

theorem detected_section_fields:
  assumes "i < length (page_headings 1 pages)"
  shows "length (fst (parse_pages pages)) = length (page_headings 1 pages)
    \<and> fst (parse_pages pages) ! i =
        \<lparr>heading_text = snd (page_headings 1 pages ! i), heading_level = ''H1'',
         page_start = Some (fst (page_headings 1 pages ! i)),
         page_end = Some (fst (page_headings 1 pages ! i)),
         order_index = int i + 1\<rparr>
    \<and> 1 \<le> fst (page_headings 1 pages ! i) \<and> fst (page_headings 1 pages ! i) \<le> int (length pages)
    \<and> snd (page_headings 1 pages ! i)
        \<in> set (detect_sections (page_lines (pages ! nat (fst (page_headings 1 pages ! i) - 1))))"
proof -
  from assms have ne: "page_headings 1 pages \<noteq> []" by auto
  have "(fst (page_headings 1 pages ! i), snd (page_headings 1 pages ! i))
          \<in> set (page_headings 1 pages)"
    using assms by simp
  then have "1 \<le> fst (page_headings 1 pages ! i)
      \<and> fst (page_headings 1 pages ! i) < 1 + int (length pages)
      \<and> snd (page_headings 1 pages ! i)
        \<in> set (detect_sections (page_lines (pages ! nat (fst (page_headings 1 pages ! i) - 1))))"
    by (simp only: set_page_headings)
  with ne assms show ?thesis
    by (simp add: parse_pages_eq nth_number_sections add.commute)
qed

text \<open>
  C6.  In the output of the parser, the \<open>order_index\<close> values of the sections are
  \<open>1, ..., len(sections)\<close> in output order, and those of the figures are
  \<open>1, ..., len(figures)\<close>, whatever the number of sections.
\<close>

theorem order_index_sequences:
  "map order_index (fst (parse_pages pages)) = map int [1..<Suc (length (fst (parse_pages pages)))]
   \<and> map fig_order_index (snd (parse_pages pages))
       = map int [1..<Suc (length (snd (parse_pages pages)))]"
proof -
  have shift: "map (\<lambda>i. 1 + int i) [0..<n] = map int [1..<Suc n]" for n
    by (rule nth_equalityI) (simp_all del: upt_Suc)
  have one: "map int [Suc 0..<Suc (Suc 0)] = [1]" by simp
  show ?thesis
    by (simp add: parse_pages_eq map_order_index_number_sections
        map_fig_order_index_number_figures shift one del: upt_Suc)
qed

text \<open>
  C10.  A figure of the output whose \<open>section_index\<close> is set has an index \<open>i\<close> with
  \<open>0 \<le> i < len(sections)\<close>, and the guarded lookup of \<open>upload_document\<close> resolves it to
  the identity of the section model at that position: no association is dropped.
\<close>

theorem section_index_in_range:
  assumes "f \<in> set (snd (parse_pages pages))" and "section_index f = Some i"
  shows "0 \<le> i \<and> i < int (length (fst (parse_pages pages)))
    \<and> resolve_section_id (section_models_loop ids 0 (fst (parse_pages pages)) []) f
        = Inr (Some (sec_id (section_models_loop ids 0 (fst (parse_pages pages)) [] ! nat i)))"
proof -
  from parsed_figure_facts [OF assms(1)] obtain q where
    f: "section_index f = last_index (length (page_headings 1 (take (nat q) pages)))"
    by blast
  let ?n = "length (page_headings 1 (take (nat q) pages))"
  have le: "?n \<le> length (fst (parse_pages pages))"
    using length_page_headings_prefix [of 1 "nat q" pages] length_parsed_sections [of pages]
    by simp
  from f assms(2) have n: "0 < ?n" "i = int ?n - 1"
    by (simp_all add: last_index_def split: if_splits)
  with le have range: "0 \<le> i" "i < int (length (fst (parse_pages pages)))" by simp_all
  then have "nat i < length (fst (parse_pages pages))" by simp
  from section_models_nth [OF this, of ids]
  have "sec_id (section_models_loop ids 0 (fst (parse_pages pages)) [] ! nat i)
          = new_section_id ids (nat i)"
    by simp
  with resolve_parsed [OF assms(1), of ids] assms(2) range show ?thesis by simp
qed


theorem detected_section_fields_witness:
  "0 < length (page_headings 1 [None, Some ''3.2 Inspection Criteria''])
   \<and> fst (parse_pages [None, Some ''3.2 Inspection Criteria'']) ! 0 =
        \<lparr>heading_text = ''3.2 Inspection Criteria'', heading_level = ''H1'',
         page_start = Some 2, page_end = Some 2, order_index = 1\<rparr>"
proof -
  have ph: "page_headings 1 [None, Some ''3.2 Inspection Criteria'']
              = [(2, ''3.2 Inspection Criteria'')]"
    by code_simp
  have h: "0 < length (page_headings 1 [None, Some ''3.2 Inspection Criteria''])"
    by (simp only: ph) simp
  from detected_section_fields [OF h] h show ?thesis
    by (simp only: ph) simp
qed

theorem order_index_sequences_witness:
  "map order_index (fst (parse_pages
      [Some (''1 Scope'' @ [CHR 0x0A] @ ''Figure 1 a'' @ [CHR 0x0A] @ ''Figure 2 b''),
       Some ''Figure 3 c''])) = [1]
   \<and> map fig_order_index (snd (parse_pages
      [Some (''1 Scope'' @ [CHR 0x0A] @ ''Figure 1 a'' @ [CHR 0x0A] @ ''Figure 2 b''),
       Some ''Figure 3 c''])) = [1, 2, 3]"
proof -
  have len: "length (fst (parse_pages
      [Some (''1 Scope'' @ [CHR 0x0A] @ ''Figure 1 a'' @ [CHR 0x0A] @ ''Figure 2 b''),
       Some ''Figure 3 c''])) = 1
    \<and> length (snd (parse_pages
      [Some (''1 Scope'' @ [CHR 0x0A] @ ''Figure 1 a'' @ [CHR 0x0A] @ ''Figure 2 b''),
       Some ''Figure 3 c''])) = 3"
    by code_simp
  have upt: "map int [1..<Suc 1] = [1]" "map int [1..<Suc 3] = [1, 2, 3]"
    by code_simp+
  from order_index_sequences [of
      "[Some (''1 Scope'' @ [CHR 0x0A] @ ''Figure 1 a'' @ [CHR 0x0A] @ ''Figure 2 b''),
       Some ''Figure 3 c'']"]
  show ?thesis by (simp only: len upt)
qed

theorem section_index_in_range_witness:
  "\<lparr>section_index = Some 0, page_number = Some 1, caption_text = Some ''Figure 1 a'',
      fig_order_index = 1\<rparr>
     \<in> set (snd (parse_pages [Some (''1 Scope'' @ [CHR 0x0A] @ ''Figure 1 a'')]))
   \<and> (0::int) < int (length (fst (parse_pages [Some (''1 Scope'' @ [CHR 0x0A] @ ''Figure 1 a'')])))
   \<and> resolve_section_id
        (section_models_loop \<lparr>new_document_id = 7, new_section_id = (\<lambda>k. 10 + int k)\<rparr> 0
           (fst (parse_pages [Some (''1 Scope'' @ [CHR 0x0A] @ ''Figure 1 a'')])) [])
        \<lparr>section_index = Some 0, page_number = Some 1, caption_text = Some ''Figure 1 a'',
          fig_order_index = 1\<rparr>
      = Inr (Some 10)"
proof -
  let ?pages = "[Some (''1 Scope'' @ [CHR 0x0A] @ ''Figure 1 a'')]"
  let ?f = "\<lparr>section_index = Some 0, page_number = Some 1, caption_text = Some ''Figure 1 a'',
      fig_order_index = 1\<rparr>"
  let ?ids = "\<lparr>new_document_id = 7, new_section_id = (\<lambda>k. 10 + int k)\<rparr>"
  have pp: "parse_pages ?pages =
      ([\<lparr>heading_text = ''1 Scope'', heading_level = ''H1'', page_start = Some 1,
         page_end = Some 1, order_index = 1\<rparr>], [?f])"
    by code_simp
  have m: "?f \<in> set (snd (parse_pages ?pages))" by (simp only: pp) simp
  have s: "section_index ?f = Some 0" by simp
  from section_index_in_range [OF m s, of ?ids] m show ?thesis
    by (simp only: pp) simp
qed

section \<open>Figures and their sections\<close>

lemma scan_pages_take_sections:
  "fst (scan_pages (take k pages)) = number_sections 1 (page_headings 1 (take k pages))"
  by (simp add: scan_pages_eq)

lemma page_headings_single:
  "page_headings p [page] = map (Pair p) (detect_sections (page_lines page))"
  by (simp add: detect_sections_eq)

text \<open>
  C9.  On every page the headings are turned into sections before the lines are searched
  for figures.  So a figure of a page that has a heading refers to the section of the last
  heading of that same page, also when its caption line stands above that heading.
\<close>

theorem figure_follows_headings_of_its_page:
  assumes "f \<in> set (snd (parse_pages pages))" and "page_number f = Some q"
    and "detect_sections (page_lines (pages ! nat (q - 1))) \<noteq> []"
  shows "\<exists>i. section_index f = Some (int i) \<and> i < length (fst (parse_pages pages))
    \<and> fst (parse_pages pages) ! i =
        \<lparr>heading_text = last (detect_sections (page_lines (pages ! nat (q - 1)))),
         heading_level = ''H1'', page_start = Some q, page_end = Some q,
         order_index = int i + 1\<rparr>"
proof -
  let ?hs = "detect_sections (page_lines (pages ! nat (q - 1)))"
  from parsed_figure_facts [OF assms(1)] assms(2) have
    q: "1 \<le> q" "q \<le> int (length pages)" and
    f: "section_index f = last_index (length (page_headings 1 (take (nat q) pages)))"
    by auto
  let ?k = "nat (q - 1)"
  from q have k: "?k < length pages" "Suc ?k = nat q" "1 + int ?k = q" by simp_all
  from take_Suc_conv_app_nth [OF k(1)] k(2)
  have "take (nat q) pages = take ?k pages @ [pages ! ?k]" by simp
  then have "page_headings 1 (take (nat q) pages) =
      page_headings 1 (take ?k pages) @ page_headings (1 + int (length (take ?k pages))) [pages ! ?k]"
    by (simp only: page_headings_append)
  also from k(1) have "length (take ?k pages) = ?k" by simp
  finally have upto: "page_headings 1 (take (nat q) pages) =
      page_headings 1 (take ?k pages) @ map (Pair q) ?hs"
    by (simp only: k(3) page_headings_single)
  let ?n = "length (page_headings 1 (take (nat q) pages))"
  from upto assms(3) have pos: "0 < ?n" by simp
  have "last (page_headings 1 (take ?k pages) @ map (Pair q) ?hs) = (q, last ?hs)"
    using assms(3) by (simp add: last_map)
  then have "last (page_headings 1 (take (nat q) pages)) = (q, last ?hs)"
    by (simp only: upto)
  moreover from pos have "page_headings 1 (take (nat q) pages) \<noteq> []" by auto
  ultimately have lastq: "page_headings 1 (take (nat q) pages) ! (?n - 1) = (q, last ?hs)"
    by (simp add: last_conv_nth)
  have all: "page_headings 1 pages = page_headings 1 (take (nat q) pages) @
      page_headings (1 + int (length (take (nat q) pages))) (drop (nat q) pages)"
    by (rule page_headings_take_drop)
  from pos have inq: "?n - 1 < ?n" by simp
  from all inq have nth: "page_headings 1 pages ! (?n - 1) = (q, last ?hs)"
    by (metis lastq nth_append)
  from all have le: "?n \<le> length (page_headings 1 pages)"
    by (metis length_append le_add1)
  with pos have lt: "?n - 1 < length (page_headings 1 pages)" by linarith
  then have ne: "page_headings 1 pages \<noteq> []" by auto
  from pos have "int ?n - 1 = int (?n - 1)" by linarith
  moreover from pos have "?n \<noteq> 0" by linarith
  ultimately have idx: "section_index f = Some (int (?n - 1))"
    using f by (simp only: last_index_def if_False)
  from ne lt nth have "?n - 1 < length (fst (parse_pages pages)) \<and>
      fst (parse_pages pages) ! (?n - 1) =
        \<lparr>heading_text = last ?hs, heading_level = ''H1'', page_start = Some q, page_end = Some q,
         order_index = int (?n - 1) + 1\<rparr>"
    by (simp add: parse_pages_eq nth_number_sections add.commute)
  with idx show ?thesis by blast
qed

theorem figure_follows_headings_of_its_page_witness:
  "\<lparr>section_index = Some 2, page_number = Some 2, caption_text = Some ''Figure 2 probe'',
      fig_order_index = 1\<rparr>
     \<in> set (snd (parse_pages [Some ''1 Scope'',
           Some (''Figure 2 probe'' @ [CHR 0x0A] @ ''2 Method'' @ [CHR 0x0A] @ ''3 Results'')]))
   \<and> detect_sections (page_lines ([Some ''1 Scope'',
           Some (''Figure 2 probe'' @ [CHR 0x0A] @ ''2 Method'' @ [CHR 0x0A] @ ''3 Results'')]
         ! nat (2 - 1))) = [''2 Method'', ''3 Results'']
   \<and> fst (parse_pages [Some ''1 Scope'',
           Some (''Figure 2 probe'' @ [CHR 0x0A] @ ''2 Method'' @ [CHR 0x0A] @ ''3 Results'')]) ! 2 =
        \<lparr>heading_text = ''3 Results'', heading_level = ''H1'', page_start = Some 2,
         page_end = Some 2, order_index = 3\<rparr>"
proof -
  let ?pages = "[Some ''1 Scope'',
           Some (''Figure 2 probe'' @ [CHR 0x0A] @ ''2 Method'' @ [CHR 0x0A] @ ''3 Results'')]"
  let ?f = "\<lparr>section_index = Some 2, page_number = Some 2,
      caption_text = Some ''Figure 2 probe'', fig_order_index = 1\<rparr>"
  have pp: "snd (parse_pages ?pages) = [?f]" by code_simp
  have ds: "detect_sections (page_lines (?pages ! nat (2 - 1))) = [''2 Method'', ''3 Results'']"
    by code_simp
  have m: "?f \<in> set (snd (parse_pages ?pages))" by (simp only: pp) simp
  have p: "page_number ?f = Some 2" by simp
  have h: "detect_sections (page_lines (?pages ! nat (2 - 1))) \<noteq> []" by (simp only: ds) simp
  from figure_follows_headings_of_its_page [OF m p h] obtain i where
    i: "section_index ?f = Some (int i)" and
    s: "fst (parse_pages ?pages) ! i =
        \<lparr>heading_text = last (detect_sections (page_lines (?pages ! nat (2 - 1)))),
         heading_level = ''H1'', page_start = Some 2, page_end = Some 2,
         order_index = int i + 1\<rparr>"
    by blast
  from i have "i = 2" by simp
  with s have "fst (parse_pages ?pages) ! 2 =
        \<lparr>heading_text = ''3 Results'', heading_level = ''H1'', page_start = Some 2,
         page_end = Some 2, order_index = 3\<rparr>"
    by (simp only: ds) simp
  with m ds show ?thesis by blast
qed

lemma page_headings_empty:
  "page_headings p pages = [] \<longleftrightarrow> (\<forall>page \<in> set pages. detect_sections (page_lines page) = [])"
  by (induction pages arbitrary: p) (simp_all add: detect_sections_eq)

section \<open>Blank pages\<close>

lemma map_heading_text_number_sections:
  "map heading_text (number_sections oi hs) = map snd hs"
  by (induction oi hs rule: number_sections.induct) simp_all

lemma map_section_index_number_figures:
  "map section_index (number_figures k cs) = map (\<lambda>c. last_index (fst c)) (map snd cs)"
  by (induction k cs rule: number_figures.induct) simp_all

lemma map_caption_text_number_figures:
  "map caption_text (number_figures k cs) = map (\<lambda>c. Some (snd c)) (map snd cs)"
  by (induction k cs rule: number_figures.induct) simp_all

lemma page_captions_shift:
  "map snd (page_captions p n pages) = map snd (page_captions q n pages)"
proof (induction pages arbitrary: p q n)
  case Nil
  show ?case by simp
next
  case (Cons page rest)
  from Cons.IH [of "p + 1" _ "q + 1"] show ?case by (simp add: comp_def)
qed

lemma page_captions_append:
  "page_captions p n (xs @ ys) =
     page_captions p n xs @ page_captions (p + int (length xs)) (n + length (page_headings p xs)) ys"
  by (induction xs arbitrary: p n) (simp_all add: ac_simps)

lemma blank_page_lines:
  assumes "\<forall>line \<in> set (splitlines (case page of None \<Rightarrow> [] | Some text \<Rightarrow> text)). strip line = []"
  shows "page_lines page = []"
  using assms by (simp add: page_lines_def filter_empty_conv)

lemma blank_page_headings:
  assumes "page_lines page = []"
  shows "map snd (page_headings p (pre @ page # post)) = map snd (page_headings p (pre @ post))"
  using assms by (simp add: map_snd_page_headings)

lemma blank_page_captions:
  assumes "page_lines page = []"
  shows "map snd (page_captions p n (pre @ page # post)) = map snd (page_captions p n (pre @ post))"
proof -
  let ?p = "p + int (length pre)" and ?n = "n + length (page_headings p pre)"
  from assms have "page_captions ?p ?n (page # post) = page_captions (?p + 1) ?n post"
    by simp
  then have "map snd (page_captions ?p ?n (page # post)) = map snd (page_captions ?p ?n post)"
    using page_captions_shift [of "?p + 1" ?n post ?p] by simp
  then show ?thesis by (simp only: page_captions_append map_append)
qed

text \<open>
  C8.  A page without text, or with blank lines only, leaves the state of the scan as it
  was: no section, no figure, the same counter.  A document with such a page has the same
  headings, captions, section indices and \<open>order_index\<close> values as the document without it.
  The parser has no failing branch once the reader is open: it returns a result for every
  list of page texts.
\<close>

theorem blank_page_is_skipped:
  assumes "\<forall>line \<in> set (splitlines (case page of None \<Rightarrow> [] | Some text \<Rightarrow> text)). strip line = []"
  shows "pages_loop p (page # rest) st = pages_loop (p + 1) rest st
    \<and> map heading_text (fst (parse_pages (pre @ page # post)))
        = map heading_text (fst (parse_pages (pre @ post)))
    \<and> map order_index (fst (parse_pages (pre @ page # post)))
        = map order_index (fst (parse_pages (pre @ post)))
    \<and> map section_index (snd (parse_pages (pre @ page # post)))
        = map section_index (snd (parse_pages (pre @ post)))
    \<and> map caption_text (snd (parse_pages (pre @ page # post)))
        = map caption_text (snd (parse_pages (pre @ post)))
    \<and> map fig_order_index (snd (parse_pages (pre @ page # post)))
        = map fig_order_index (snd (parse_pages (pre @ post)))
    \<and> (\<exists>r. parse_pdf (Readable pages) = Inr r)"
proof -
  from assms have blank: "page_lines page = []" by (rule blank_page_lines)
  obtain secs figs oi where st: "st = (secs, figs, oi)" by (cases st)
  have step: "pages_loop p (page # rest) st = pages_loop (p + 1) rest st"
    by (simp add: st blank detect_sections_def)
  let ?with = "pre @ page # post" and ?without = "pre @ post"
  have hs: "map snd (page_headings 1 ?with) = map snd (page_headings 1 ?without)"
    using blank by (rule blank_page_headings)
  from arg_cong [OF hs, of length]
  have hlen: "length (page_headings 1 ?with) = length (page_headings 1 ?without)" by simp
  then have hnil: "page_headings 1 ?with = [] \<longleftrightarrow> page_headings 1 ?without = []"
    by (metis length_0_conv)
  have cs: "map snd (page_captions 1 0 ?with) = map snd (page_captions 1 0 ?without)"
    using blank by (rule blank_page_captions)
  from arg_cong [OF cs, of length]
  have clen: "length (page_captions 1 0 ?with) = length (page_captions 1 0 ?without)" by simp
  have texts: "map heading_text (fst (parse_pages ?with)) = map heading_text (fst (parse_pages ?without))"
    by (simp add: parse_pages_eq hnil map_heading_text_number_sections hs)
  have orders: "map order_index (fst (parse_pages ?with)) = map order_index (fst (parse_pages ?without))"
    by (simp add: parse_pages_eq hnil map_order_index_number_sections hlen)
  have idx: "map section_index (snd (parse_pages ?with)) = map section_index (snd (parse_pages ?without))"
    by (simp only: parse_pages_eq snd_conv map_section_index_number_figures cs)
  have caps: "map caption_text (snd (parse_pages ?with)) = map caption_text (snd (parse_pages ?without))"
    by (simp only: parse_pages_eq snd_conv map_caption_text_number_figures cs)
  have forders: "map fig_order_index (snd (parse_pages ?with))
      = map fig_order_index (snd (parse_pages ?without))"
    by (simp only: parse_pages_eq snd_conv map_fig_order_index_number_figures clen)
  have total: "\<exists>r. parse_pdf (Readable pages) = Inr r" by (simp add: parse_pdf_def)
  from step texts orders idx caps forders total show ?thesis by blast
qed


theorem blank_page_is_skipped_witness:
  "map strip (splitlines (case Some ('' '' @ [CHR 0x0A] @ [CHR 0x09, CHR '' ''])
                            of None \<Rightarrow> [] | Some text \<Rightarrow> text)) = [[], []]
   \<and> map order_index (fst (parse_pages ([Some ''1 Scope''] @
          Some ('' '' @ [CHR 0x0A] @ [CHR 0x09, CHR '' '']) #
          [Some (''2 Method'' @ [CHR 0x0A] @ ''Figure 1 probe'')]))) = [1, 2]
   \<and> map fig_order_index (snd (parse_pages ([Some ''1 Scope''] @
          Some ('' '' @ [CHR 0x0A] @ [CHR 0x09, CHR '' '']) #
          [Some (''2 Method'' @ [CHR 0x0A] @ ''Figure 1 probe'')]))) = [1]
   \<and> map section_index (snd (parse_pages ([Some ''1 Scope''] @
          Some ('' '' @ [CHR 0x0A] @ [CHR 0x09, CHR '' '']) #
          [Some (''2 Method'' @ [CHR 0x0A] @ ''Figure 1 probe'')]))) = [Some 1]"
proof -
  let ?page = "Some ('' '' @ [CHR 0x0A] @ [CHR 0x09, CHR '' ''])"
  let ?pre = "[Some ''1 Scope'']"
  let ?post = "[Some (''2 Method'' @ [CHR 0x0A] @ ''Figure 1 probe'')]"
  have sl: "map strip (splitlines (case ?page of None \<Rightarrow> [] | Some text \<Rightarrow> text)) = [[], []]"
    by code_simp
  have h: "\<forall>line \<in> set (splitlines (case ?page of None \<Rightarrow> [] | Some text \<Rightarrow> text)).
      strip line = []"
  proof
    fix line
    assume "line \<in> set (splitlines (case ?page of None \<Rightarrow> [] | Some text \<Rightarrow> text))"
    then have "strip line \<in> set (map strip
        (splitlines (case ?page of None \<Rightarrow> [] | Some text \<Rightarrow> text)))"
      by (simp only: set_map) (rule imageI)
    then show "strip line = []" by (simp only: sl) simp
  qed
  have without: "map order_index (fst (parse_pages (?pre @ ?post))) = [1, 2]
      \<and> map fig_order_index (snd (parse_pages (?pre @ ?post))) = [1]
      \<and> map section_index (snd (parse_pages (?pre @ ?post))) = [Some 1]"
    by code_simp
  from blank_page_is_skipped [OF h, of _ _ _ ?pre ?post] without sl
  show ?thesis by metis
qed

section \<open>The heading rule\<close>

lemma set_cuts: "set (cuts s) = {(a, b). s = a @ b}"
proof (intro set_eqI iffI)
  fix x assume "x \<in> set (cuts s)"
  then have "x \<in> (\<lambda>k. (take k s, drop k s)) ` set [0..<Suc (length s)]"
    unfolding cuts_def set_map .
  then obtain k where "x = (take k s, drop k s)" by blast
  then show "x \<in> {(a, b). s = a @ b}" by simp
next
  fix x assume "x \<in> {(a, b). s = a @ b}"
  then obtain a b where x: "x = (a, b)" "s = a @ b" by auto
  then have "x = (\<lambda>k. (take k s, drop k s)) (length a)" by simp
  moreover from x have "length a \<in> set [0..<Suc (length s)]" by simp
  ultimately have "x \<in> (\<lambda>k. (take k s, drop k s)) ` set [0..<Suc (length s)]"
    by (rule image_eqI)
  then show "x \<in> set (cuts s)" unfolding cuts_def set_map .
qed

lemma in_cuts: "(a, b) \<in> set (cuts s) \<longleftrightarrow> s = a @ b"
  by (simp add: set_cuts)

lemma spec_heading_iff:
  "spec_heading s \<longleftrightarrow>
     (\<exists>label ws title. s = label @ ws @ title \<and> outline_label label
        \<and> ws \<noteq> [] \<and> list_all is_space ws \<and> title \<noteq> [])"
proof
  assume "spec_heading s"
  then obtain label rest ws title where
    "(label, rest) \<in> set (cuts s)" "outline_label label" "(ws, title) \<in> set (cuts rest)"
    "ws \<noteq> []" "list_all is_space ws" "title \<noteq> []"
    unfolding spec_heading_def list_ex_iff by blast
  then show "\<exists>label ws title. s = label @ ws @ title \<and> outline_label label
        \<and> ws \<noteq> [] \<and> list_all is_space ws \<and> title \<noteq> []"
    unfolding in_cuts by blast
next
  assume "\<exists>label ws title. s = label @ ws @ title \<and> outline_label label
        \<and> ws \<noteq> [] \<and> list_all is_space ws \<and> title \<noteq> []"
  then obtain label ws title where h: "s = label @ ws @ title" "outline_label label"
    "ws \<noteq> []" "list_all is_space ws" "title \<noteq> []" by blast
  have 1: "(label, ws @ title) \<in> set (cuts s)" using h(1) by (simp only: in_cuts)
  have 2: "(ws, title) \<in> set (cuts (ws @ title))" by (simp only: in_cuts)
  from 2 h have "\<exists>x \<in> set (cuts (ws @ title)).
      case x of (ws, title) \<Rightarrow> ws \<noteq> [] \<and> list_all is_space ws \<and> title \<noteq> []"
    by (intro bexI [of _ "(ws, title)"]) simp_all
  with 1 h(2) show "spec_heading s"
    unfolding spec_heading_def list_ex_iff
    by (intro bexI [of _ "(label, ws @ title)"]) simp_all
qed



lemma split_on_not_Nil: "split_on d s \<noteq> []"
  by (induction s) (auto split: list.splits)

lemma split_on_no_sep: "d \<notin> set g \<Longrightarrow> split_on d g = [g]"
  by (induction g) auto

lemma split_on_sep: "split_on d (u @ d # v) = split_on d u @ split_on d v"
proof (induction u)
  case Nil
  show ?case by simp
next
  case (Cons c u)
  obtain g gs where "split_on d u = g # gs" using split_on_not_Nil [of d u] by (cases "split_on d u") auto
  with Cons show ?case by (auto split: list.splits)
qed

lemma digit_not_dot: "is_digit c \<Longrightarrow> c \<noteq> CHR ''.''"
  by (auto simp: is_digit_def ord_def)

lemma digits_no_dot: "list_all is_digit g \<Longrightarrow> CHR ''.'' \<notin> set g"
  by (auto simp: list_all_iff dest: digit_not_dot)

lemma outline_label_group: "g \<noteq> [] \<Longrightarrow> list_all is_digit g \<Longrightarrow> outline_label g"
  by (simp add: outline_label_def split_on_no_sep digits_no_dot)

lemma outline_label_snoc:
  "list_all is_digit g \<Longrightarrow>
     outline_label (u @ CHR ''.'' # g) \<longleftrightarrow> outline_label u \<and> g \<noteq> []"
  by (simp add: outline_label_def split_on_sep split_on_no_sep digits_no_dot)

lemma outline_label_cases:
  assumes "outline_label w"
  shows "(w \<noteq> [] \<and> list_all is_digit w)
    \<or> (\<exists>u g. w = u @ CHR ''.'' # g \<and> outline_label u \<and> g \<noteq> [] \<and> list_all is_digit g)"
proof (cases "CHR ''.'' \<in> set w")
  case False
  with assms show ?thesis by (simp add: outline_label_def split_on_no_sep)
next
  case True
  from split_list_last [OF this] obtain u g where w: "w = u @ CHR ''.'' # g" "CHR ''.'' \<notin> set g"
    by blast
  with assms have "list_all (\<lambda>g. g \<noteq> [] \<and> list_all is_digit g) (split_on CHR ''.'' u @ [g])"
    by (simp add: outline_label_def split_on_sep split_on_no_sep)
  then have "outline_label u \<and> g \<noteq> [] \<and> list_all is_digit g"
    by (simp add: outline_label_def)
  with w show ?thesis by blast
qed


lemma star_chr_rel:
  "((b, a), (b', a')) \<in> (rx_rel (Chr p))\<^sup>* \<longleftrightarrow>
     (\<exists>w. a = w @ a' \<and> b' = rev w @ b \<and> list_all p w)"
proof
  assume "((b, a), (b', a')) \<in> (rx_rel (Chr p))\<^sup>*"
  then show "\<exists>w. a = w @ a' \<and> b' = rev w @ b \<and> list_all p w"
  proof (induction "(b', a')" arbitrary: b' a' rule: rtrancl_induct)
    case base
    have "a = [] @ a \<and> b = rev [] @ b \<and> list_all p []" by simp
    then show ?case by blast
  next
    case (step y)
    obtain yb ya where y: "y = (yb, ya)" by (cases y)
    from step.hyps(3) [OF y] obtain w where w: "a = w @ ya" "yb = rev w @ b" "list_all p w"
      by blast
    from step.hyps(2) y obtain x where x: "ya = x # a'" "b' = x # yb" "p x" by auto
    from w x have "a = (w @ [x]) @ a' \<and> b' = rev (w @ [x]) @ b \<and> list_all p (w @ [x])"
      by simp
    then show ?case by blast
  qed
next
  assume "\<exists>w. a = w @ a' \<and> b' = rev w @ b \<and> list_all p w"
  then obtain w where w: "a = w @ a'" "b' = rev w @ b" "list_all p w" by blast
  have "((b, w @ a'), (rev w @ b, a')) \<in> (rx_rel (Chr p))\<^sup>*" using w(3)
  proof (induction w arbitrary: b)
    case Nil
    show ?case by simp
  next
    case (Cons x w)
    then have "((b, (x # w) @ a'), (x # b, w @ a')) \<in> rx_rel (Chr p)" by simp
    moreover from Cons have "((x # b, w @ a'), (rev w @ x # b, a')) \<in> (rx_rel (Chr p))\<^sup>*"
      by simp
    ultimately show ?case by (simp add: converse_rtrancl_into_rtrancl)
  qed
  with w show "((b, a), (b', a')) \<in> (rx_rel (Chr p))\<^sup>*" by simp
qed

lemma plus_chr_rel:
  "((b, a), (b', a')) \<in> rx_rel (Plus (Chr p)) \<longleftrightarrow>
     (\<exists>w. w \<noteq> [] \<and> a = w @ a' \<and> b' = rev w @ b \<and> list_all p w)"
proof
  assume "((b, a), (b', a')) \<in> rx_rel (Plus (Chr p))"
  then have "((b, a), (b', a')) \<in> rx_rel (Chr p) O (rx_rel (Chr p))\<^sup>*"
    by (simp only: Plus_def rx_rel.simps)
  then obtain y where y: "((b, a), y) \<in> rx_rel (Chr p)" "(y, (b', a')) \<in> (rx_rel (Chr p))\<^sup>*"
    by (rule relcompE) blast
  from y(1) obtain x xs where x: "a = x # xs" "y = (x # b, xs)" "p x" by auto
  from y(2) x(2) have "((x # b, xs), (b', a')) \<in> (rx_rel (Chr p))\<^sup>*" by simp
  from iffD1 [OF star_chr_rel this]
  obtain w where w: "xs = w @ a'" "b' = rev w @ x # b" "list_all p w" by blast
  from x w have "x # w \<noteq> [] \<and> a = (x # w) @ a' \<and> b' = rev (x # w) @ b \<and> list_all p (x # w)"
    by simp
  then show "\<exists>w. w \<noteq> [] \<and> a = w @ a' \<and> b' = rev w @ b \<and> list_all p w" by blast
next
  assume "\<exists>w. w \<noteq> [] \<and> a = w @ a' \<and> b' = rev w @ b \<and> list_all p w"
  then obtain v where v: "v \<noteq> []" "a = v @ a'" "b' = rev v @ b" "list_all p v" by blast
  from v(1) obtain x w where "v = x # w" by (cases v) auto
  with v have w: "a = (x # w) @ a'" "b' = rev (x # w) @ b" "list_all p (x # w)" by simp_all
  then have 1: "((b, a), (x # b, w @ a')) \<in> rx_rel (Chr p)" by simp
  have "\<exists>v. w @ a' = v @ a' \<and> b' = rev v @ x # b \<and> list_all p v"
    using w by (intro exI [of _ w]) simp
  then have 2: "((x # b, w @ a'), (b', a')) \<in> (rx_rel (Chr p))\<^sup>*"
    by (rule iffD2 [OF star_chr_rel])
  from 1 2 have "((b, a), (b', a')) \<in> rx_rel (Chr p) O (rx_rel (Chr p))\<^sup>*"
    by (rule relcompI)
  then show "((b, a), (b', a')) \<in> rx_rel (Plus (Chr p))"
    by (simp only: Plus_def rx_rel.simps)
qed

lemma group_rel:
  "((b, a), (b', a')) \<in> rx_rel (Seq (lit CHR ''.'') (Plus (Chr is_digit))) \<longleftrightarrow>
     (\<exists>g. g \<noteq> [] \<and> list_all is_digit g \<and> a = CHR ''.'' # g @ a' \<and> b' = rev g @ CHR ''.'' # b)"
proof
  assume "((b, a), (b', a')) \<in> rx_rel (Seq (lit CHR ''.'') (Plus (Chr is_digit)))"
  then have "((b, a), (b', a')) \<in> rx_rel (lit CHR ''.'') O rx_rel (Plus (Chr is_digit))"
    by (simp only: rx_rel.simps)
  then obtain y where y: "((b, a), y) \<in> rx_rel (lit CHR ''.'')"
    "(y, (b', a')) \<in> rx_rel (Plus (Chr is_digit))"
    by (rule relcompE) blast
  from y(1) obtain xs where x: "a = CHR ''.'' # xs" "y = (CHR ''.'' # b, xs)"
    by (auto simp: lit_def)
  from y(2) x(2) have "((CHR ''.'' # b, xs), (b', a')) \<in> rx_rel (Plus (Chr is_digit))" by simp
  from iffD1 [OF plus_chr_rel this]
  obtain g where "g \<noteq> []" "xs = g @ a'" "b' = rev g @ CHR ''.'' # b" "list_all is_digit g"
    by blast
  with x show "\<exists>g. g \<noteq> [] \<and> list_all is_digit g \<and> a = CHR ''.'' # g @ a'
      \<and> b' = rev g @ CHR ''.'' # b"
    by blast
next
  assume "\<exists>g. g \<noteq> [] \<and> list_all is_digit g \<and> a = CHR ''.'' # g @ a' \<and> b' = rev g @ CHR ''.'' # b"
  then obtain g where g: "g \<noteq> []" "list_all is_digit g" "a = CHR ''.'' # g @ a'"
    "b' = rev g @ CHR ''.'' # b"
    by blast
  then have 1: "((b, a), (CHR ''.'' # b, g @ a')) \<in> rx_rel (lit CHR ''.'')"
    by (simp add: lit_def)
  from g have "\<exists>w. w \<noteq> [] \<and> g @ a' = w @ a' \<and> b' = rev w @ CHR ''.'' # b \<and> list_all is_digit w"
    by (intro exI [of _ g]) simp
  then have 2: "((CHR ''.'' # b, g @ a'), (b', a')) \<in> rx_rel (Plus (Chr is_digit))"
    by (rule iffD2 [OF plus_chr_rel])
  from 1 2 have "((b, a), (b', a')) \<in> rx_rel (lit CHR ''.'') O rx_rel (Plus (Chr is_digit))"
    by (rule relcompI)
  then show "((b, a), (b', a')) \<in> rx_rel (Seq (lit CHR ''.'') (Plus (Chr is_digit)))"
    by (simp only: rx_rel.simps)
qed


lemma label_rel_sound:
  assumes "((b, a), (b', a')) \<in>
      rx_rel (Seq (Plus (Chr is_digit)) (Star (Seq (lit CHR ''.'') (Plus (Chr is_digit)))))"
  shows "\<exists>w. outline_label w \<and> a = w @ a' \<and> b' = rev w @ b"
proof -
  let ?G = "rx_rel (Seq (lit CHR ''.'') (Plus (Chr is_digit)))"
  from assms have "((b, a), (b', a')) \<in> rx_rel (Plus (Chr is_digit)) O ?G\<^sup>*"
    by (simp only: rx_rel.simps)
  then obtain y where y: "((b, a), y) \<in> rx_rel (Plus (Chr is_digit))" "(y, (b', a')) \<in> ?G\<^sup>*"
    by (rule relcompE) blast
  from y(2) show ?thesis
  proof (induction "(b', a')" arbitrary: b' a' rule: rtrancl_induct)
    case base
    from y(1) base have "((b, a), (b', a')) \<in> rx_rel (Plus (Chr is_digit))" by simp
    from iffD1 [OF plus_chr_rel this] obtain w where
      "w \<noteq> []" "a = w @ a'" "b' = rev w @ b" "list_all is_digit w" by blast
    then show ?case using outline_label_group [of w] by blast
  next
    case (step z)
    obtain zb za where z: "z = (zb, za)" by (cases z)
    from step.hyps(3) [OF z] obtain w where w: "outline_label w" "a = w @ za" "zb = rev w @ b"
      by blast
    from step.hyps(2) z have "((zb, za), (b', a')) \<in> ?G" by simp
    from iffD1 [OF group_rel this] obtain g where g: "g \<noteq> []" "list_all is_digit g"
      "za = CHR ''.'' # g @ a'" "b' = rev g @ CHR ''.'' # zb"
      by blast
    from w(1) g(1,2) have "outline_label (w @ CHR ''.'' # g)" by (simp add: outline_label_snoc)
    moreover from w g have "a = (w @ CHR ''.'' # g) @ a'" "b' = rev (w @ CHR ''.'' # g) @ b"
      by simp_all
    ultimately show ?case by blast
  qed
qed

lemma label_rel_complete:
  "outline_label w \<Longrightarrow>
     ((b, w @ a'), (rev w @ b, a')) \<in>
       rx_rel (Seq (Plus (Chr is_digit)) (Star (Seq (lit CHR ''.'') (Plus (Chr is_digit)))))"
proof (induction w arbitrary: a' rule: length_induct)
  case (1 w)
  let ?G = "rx_rel (Seq (lit CHR ''.'') (Plus (Chr is_digit)))"
  let ?L = "rx_rel (Plus (Chr is_digit)) O ?G\<^sup>*"
  from outline_label_cases [OF "1.prems"] consider
      (single) "w \<noteq> []" "list_all is_digit w"
    | (more) u g where "w = u @ CHR ''.'' # g" "outline_label u" "g \<noteq> []" "list_all is_digit g"
    by blast
  then have "((b, w @ a'), (rev w @ b, a')) \<in> ?L"
  proof cases
    case single
    then have "\<exists>v. v \<noteq> [] \<and> w @ a' = v @ a' \<and> rev w @ b = rev v @ b \<and> list_all is_digit v"
      by (intro exI [of _ w]) simp
    then have "((b, w @ a'), (rev w @ b, a')) \<in> rx_rel (Plus (Chr is_digit))"
      by (rule iffD2 [OF plus_chr_rel])
    moreover have "((rev w @ b, a'), (rev w @ b, a')) \<in> ?G\<^sup>*" by (rule rtrancl.rtrancl_refl)
    ultimately show ?thesis by (rule relcompI)
  next
    case more
    from more(1) have "length u < length w" by simp
    with "1.IH" more(2) have "((b, u @ (CHR ''.'' # g @ a')), (rev u @ b, CHR ''.'' # g @ a')) \<in>
        rx_rel (Seq (Plus (Chr is_digit)) (Star (Seq (lit CHR ''.'') (Plus (Chr is_digit)))))"
      by blast
    then have "((b, u @ (CHR ''.'' # g @ a')), (rev u @ b, CHR ''.'' # g @ a')) \<in> ?L"
      by (simp only: rx_rel.simps)
    then obtain y where y: "((b, u @ (CHR ''.'' # g @ a')), y) \<in> rx_rel (Plus (Chr is_digit))"
      "(y, (rev u @ b, CHR ''.'' # g @ a')) \<in> ?G\<^sup>*"
      by (rule relcompE) blast
    from more(3,4) have "\<exists>h. h \<noteq> [] \<and> list_all is_digit h \<and> CHR ''.'' # g @ a' = CHR ''.'' # h @ a'
        \<and> rev g @ CHR ''.'' # rev u @ b = rev h @ CHR ''.'' # rev u @ b"
      by (intro exI [of _ g]) simp
    then have "((rev u @ b, CHR ''.'' # g @ a'), (rev g @ CHR ''.'' # rev u @ b, a')) \<in> ?G"
      by (rule iffD2 [OF group_rel])
    with y(2) have "(y, (rev g @ CHR ''.'' # rev u @ b, a')) \<in> ?G\<^sup>*"
      by (rule rtrancl.rtrancl_into_rtrancl)
    with y(1) have "((b, u @ (CHR ''.'' # g @ a')), (rev g @ CHR ''.'' # rev u @ b, a')) \<in> ?L"
      by (rule relcompI)
    with more(1) show ?thesis by simp
  qed
  then show ?case by (simp only: rx_rel.simps)
qed


lemma heading_match_iff:
  "re_match heading_pattern s \<longleftrightarrow>
     (\<exists>label ws title tail. s = label @ ws @ title @ tail \<and> outline_label label
        \<and> ws \<noteq> [] \<and> list_all is_space ws
        \<and> title \<noteq> [] \<and> list_all (\<lambda>x. x \<noteq> CHR 0x0A) title
        \<and> (tail = [] \<or> tail = [CHR 0x0A]))"
proof
  let ?label = "Seq (Plus (Chr is_digit)) (Star (Seq (lit CHR ''.'') (Plus (Chr is_digit))))"
  assume "re_match heading_pattern s"
  then obtain c' where "(([], s), c') \<in> rx_rel heading_pattern"
    unfolding re_match_rel by blast
  then have "(([], s), c') \<in> rx_rel Bos O (rx_rel ?label O
      (rx_rel (Plus (Chr is_space)) O (rx_rel (Plus any_char) O rx_rel Eos)))"
    by (simp only: heading_pattern_def rx_rel.simps)
  then obtain c0 c1 c2 c3 where
    c0: "(([], s), c0) \<in> rx_rel Bos" and
    c1: "(c0, c1) \<in> rx_rel ?label" and
    c2: "(c1, c2) \<in> rx_rel (Plus (Chr is_space))" and
    c3: "(c2, c3) \<in> rx_rel (Plus any_char)" and
    ce: "(c3, c') \<in> rx_rel Eos"
    by (elim relcompE) blast
  from c0 have c0': "c0 = ([], s)" by auto
  obtain b1 a1 where p1: "c1 = (b1, a1)" by (cases c1)
  obtain b2 a2 where p2: "c2 = (b2, a2)" by (cases c2)
  obtain b3 a3 where p3: "c3 = (b3, a3)" by (cases c3)
  from c1 c0' p1 have "(([], s), (b1, a1)) \<in> rx_rel ?label" by simp
  from label_rel_sound [OF this] obtain label where l: "outline_label label" "s = label @ a1"
    by blast
  from c2 p1 p2 have "((b1, a1), (b2, a2)) \<in> rx_rel (Plus (Chr is_space))" by simp
  from iffD1 [OF plus_chr_rel this] obtain ws where w: "ws \<noteq> []" "a1 = ws @ a2"
    "list_all is_space ws"
    by blast
  from c3 p2 p3 have "((b2, a2), (b3, a3)) \<in> rx_rel (Plus (Chr (\<lambda>x. x \<noteq> CHR 0x0A)))"
    by (simp add: any_char_def)
  from iffD1 [OF plus_chr_rel this] obtain title where t: "title \<noteq> []" "a2 = title @ a3"
    "list_all (\<lambda>x. x \<noteq> CHR 0x0A) title"
    by blast
  from ce p3 have e: "a3 = [] \<or> a3 = [CHR 0x0A]" by (auto simp: at_end_def)
  from l w t have "s = label @ ws @ title @ a3" by simp
  with l(1) w(1,3) t(1,3) e
  show "\<exists>label ws title tail. s = label @ ws @ title @ tail \<and> outline_label label
        \<and> ws \<noteq> [] \<and> list_all is_space ws
        \<and> title \<noteq> [] \<and> list_all (\<lambda>x. x \<noteq> CHR 0x0A) title
        \<and> (tail = [] \<or> tail = [CHR 0x0A])"
    by blast
next
  let ?label = "Seq (Plus (Chr is_digit)) (Star (Seq (lit CHR ''.'') (Plus (Chr is_digit))))"
  assume "\<exists>label ws title tail. s = label @ ws @ title @ tail \<and> outline_label label
        \<and> ws \<noteq> [] \<and> list_all is_space ws
        \<and> title \<noteq> [] \<and> list_all (\<lambda>x. x \<noteq> CHR 0x0A) title
        \<and> (tail = [] \<or> tail = [CHR 0x0A])"
  then obtain label ws title tail where
    s: "s = label @ ws @ title @ tail" and l: "outline_label label" and
    w: "ws \<noteq> []" "list_all is_space ws" and
    t: "title \<noteq> []" "list_all (\<lambda>x. x \<noteq> CHR 0x0A) title" and
    e: "tail = [] \<or> tail = [CHR 0x0A]"
    by blast
  let ?c1 = "(rev label @ [], ws @ title @ tail)"
  let ?c2 = "(rev ws @ rev label @ [], title @ tail)"
  let ?c3 = "(rev title @ rev ws @ rev label @ [], tail)"
  have r0: "(([], s), ([], s)) \<in> rx_rel Bos" by simp
  from label_rel_complete [OF l, of "[]" "ws @ title @ tail"] s
  have r1: "(([], s), ?c1) \<in> rx_rel ?label" by simp
  from w have "\<exists>v. v \<noteq> [] \<and> ws @ title @ tail = v @ title @ tail
      \<and> rev ws @ rev label @ [] = rev v @ rev label @ [] \<and> list_all is_space v"
    by (intro exI [of _ ws]) simp
  then have r2: "(?c1, ?c2) \<in> rx_rel (Plus (Chr is_space))"
    by (rule iffD2 [OF plus_chr_rel])
  from t have "\<exists>v. v \<noteq> [] \<and> title @ tail = v @ tail
      \<and> rev title @ rev ws @ rev label @ [] = rev v @ rev ws @ rev label @ []
      \<and> list_all (\<lambda>x. x \<noteq> CHR 0x0A) v"
    by (intro exI [of _ title]) simp
  then have "(?c2, ?c3) \<in> rx_rel (Plus (Chr (\<lambda>x. x \<noteq> CHR 0x0A)))"
    by (rule iffD2 [OF plus_chr_rel])
  then have r3: "(?c2, ?c3) \<in> rx_rel (Plus any_char)" by (simp only: any_char_def)
  from e have r4: "(?c3, ?c3) \<in> rx_rel Eos" by (auto simp: at_end_def)
  from r3 r4 have "(?c2, ?c3) \<in> rx_rel (Plus any_char) O rx_rel Eos" by (rule relcompI)
  with r2 have "(?c1, ?c3) \<in> rx_rel (Plus (Chr is_space)) O (rx_rel (Plus any_char) O rx_rel Eos)"
    by (rule relcompI)
  with r1 have "(([], s), ?c3) \<in> rx_rel ?label O
      (rx_rel (Plus (Chr is_space)) O (rx_rel (Plus any_char) O rx_rel Eos))"
    by (rule relcompI)
  with r0 have "(([], s), ?c3) \<in> rx_rel Bos O (rx_rel ?label O
      (rx_rel (Plus (Chr is_space)) O (rx_rel (Plus any_char) O rx_rel Eos)))"
    by (rule relcompI)
  then have "(([], s), ?c3) \<in> rx_rel heading_pattern"
    by (simp only: heading_pattern_def rx_rel.simps)
  then show "re_match heading_pattern s" unfolding re_match_rel by blast
qed

lemma heading_match_spec:
  assumes "CHR 0x0A \<notin> set s"
  shows "re_match heading_pattern s = spec_heading s"
proof
  assume "re_match heading_pattern s"
  from iffD1 [OF heading_match_iff this] obtain label ws title tail where
    h: "s = label @ ws @ title @ tail" "outline_label label" "ws \<noteq> []" "list_all is_space ws"
      "title \<noteq> []" "tail = [] \<or> tail = [CHR 0x0A]"
    by blast
  from h(1,6) assms have "tail = []" by auto
  with h have "s = label @ ws @ title" by simp
  with h(2-5) show "spec_heading s" unfolding spec_heading_iff by blast
next
  assume "spec_heading s"
  then obtain label ws title where
    h: "s = label @ ws @ title" "outline_label label" "ws \<noteq> []" "list_all is_space ws"
      "title \<noteq> []"
    unfolding spec_heading_iff by blast
  from h(1) assms have "list_all (\<lambda>x. x \<noteq> CHR 0x0A) title" by (auto simp: list_all_iff)
  with h have "s = label @ ws @ title @ [] \<and> outline_label label
        \<and> ws \<noteq> [] \<and> list_all is_space ws
        \<and> title \<noteq> [] \<and> list_all (\<lambda>x. x \<noteq> CHR 0x0A) title
        \<and> ([] = [] \<or> [] = [CHR 0x0A])"
    by simp
  then have "\<exists>label ws title tail. s = label @ ws @ title @ tail \<and> outline_label label
        \<and> ws \<noteq> [] \<and> list_all is_space ws
        \<and> title \<noteq> [] \<and> list_all (\<lambda>x. x \<noteq> CHR 0x0A) title
        \<and> (tail = [] \<or> tail = [CHR 0x0A])"
    by blast
  then show "re_match heading_pattern s" by (rule iffD2 [OF heading_match_iff])
qed


lemma linebreak_newline: "is_linebreak (CHR 0x0A)"
  by (simp add: is_linebreak_def ord_def)

lemma splitlines_from_chars:
  "l \<in> set (splitlines_from acc s) \<Longrightarrow> c \<in> set l \<Longrightarrow> c \<in> set acc \<or> \<not> is_linebreak c"
proof (induction acc s rule: splitlines_from.induct)
  case (1 acc)
  then show ?case by (auto split: if_splits)
next
  case (2 acc x)
  then show ?case by (auto split: if_splits)
next
  case (3 acc x y cs)
  show ?case
  proof (cases "is_linebreak x")
    case False
    with 3 show ?thesis by auto
  next
    case True
    show ?thesis
    proof (cases "x = CHR 0x0D \<and> y = CHR 0x0A")
      case crlf: True
      from "3.prems"(1) True crlf have "l = rev acc \<or> l \<in> set (splitlines_from [] cs)" by simp
      then show ?thesis
      proof
        assume "l = rev acc"
        with "3.prems"(2) show ?thesis by simp
      next
        assume "l \<in> set (splitlines_from [] cs)"
        from "3.IH"(1) [OF True crlf this "3.prems"(2)] show ?thesis by simp
      qed
    next
      case nocrlf: False
      from "3.prems"(1) True nocrlf have "l = rev acc \<or> l \<in> set (splitlines_from [] (y # cs))"
        by auto
      then show ?thesis
      proof
        assume "l = rev acc"
        with "3.prems"(2) show ?thesis by simp
      next
        assume "l \<in> set (splitlines_from [] (y # cs))"
        from "3.IH"(2) [OF True nocrlf this "3.prems"(2)] show ?thesis by simp
      qed
    qed
  qed
qed

lemma splitlines_no_newline: "l \<in> set (splitlines s) \<Longrightarrow> CHR 0x0A \<notin> set l"
  using splitlines_from_chars [of l "[]" s "CHR 0x0A"] linebreak_newline
  by (auto simp: splitlines_def)

lemma set_strip: "set (strip s) \<subseteq> set s"
proof
  fix c assume "c \<in> set (strip s)"
  then have "c \<in> set (dropWhile is_space (rev (dropWhile is_space s)))"
    by (simp add: strip_def)
  then have "c \<in> set (rev (dropWhile is_space s))" by (rule set_dropWhileD)
  then have "c \<in> set (dropWhile is_space s)" by simp
  then show "c \<in> set s" by (rule set_dropWhileD)
qed


text \<open>
  C2.  A non-blank line of a page is classified as a heading exactly when its trimmed
  content is an outline label (one or more integer groups separated by dots), followed by
  whitespace, followed by one or more remaining characters.  The headings returned for a
  page are the trimmed heading lines in order, the \<open>heading_text\<close> values of the detected
  sections are these trimmed lines as they are, and every section has the level \<open>H1\<close>.
\<close>

theorem heading_rule:
  "(\<forall>line \<in> set (page_lines page). is_heading line = spec_heading (strip line))
   \<and> detect_sections (page_lines page) = map strip (filter is_heading (page_lines page))
   \<and> map heading_text (fst (scan_pages pages))
       = concat (map (\<lambda>page. detect_sections (page_lines page)) pages)
   \<and> (\<forall>s \<in> set (fst (parse_pages pages)). heading_level s = ''H1'')"
proof -
  have rule: "is_heading line = spec_heading (strip line)" if "line \<in> set (page_lines page)" for line
  proof -
    from that have "line \<in> set (splitlines (case page of None \<Rightarrow> [] | Some t \<Rightarrow> t))"
      by (simp add: page_lines_def)
    then have "CHR 0x0A \<notin> set line" by (rule splitlines_no_newline)
    with set_strip [of line] have "CHR 0x0A \<notin> set (strip line)" by blast
    then show ?thesis unfolding is_heading_def by (rule heading_match_spec)
  qed
  have texts: "map heading_text (number_sections oi hs) = map snd hs" for oi hs
    by (induction oi hs rule: number_sections.induct) simp_all
  have levels: "\<forall>s \<in> set (number_sections oi hs). heading_level s = ''H1''" for oi hs
    by (induction oi hs rule: number_sections.induct) simp_all
  have "map heading_text (fst (scan_pages pages))
      = concat (map (\<lambda>page. map strip (filter is_heading (page_lines page))) pages)"
    by (simp only: scan_pages_eq fst_conv texts map_snd_page_headings)
  then have scan: "map heading_text (fst (scan_pages pages))
      = concat (map (\<lambda>page. detect_sections (page_lines page)) pages)"
    by (simp only: detect_sections_eq)
  have out: "\<forall>s \<in> set (fst (parse_pages pages)). heading_level s = ''H1''"
    using levels [of 1 "page_headings 1 pages"]
    by (simp add: parse_pages_def scan_pages_eq)
  from rule scan out show ?thesis by (simp only: detect_sections_eq) blast
qed

theorem heading_rule_witness:
  "page_lines (Some (''  3.2 Inspection Criteria '' @ [CHR 0x0A] @ ''3.2. Scope''))
     = [''  3.2 Inspection Criteria '', ''3.2. Scope'']
   \<and> spec_heading (strip ''  3.2 Inspection Criteria '')
   \<and> \<not> spec_heading (strip ''3.2. Scope'')
   \<and> map heading_text (fst (scan_pages
        [Some (''  3.2 Inspection Criteria '' @ [CHR 0x0A] @ ''3.2. Scope'')]))
       = [''3.2 Inspection Criteria'']"
proof -
  let ?page = "Some (''  3.2 Inspection Criteria '' @ [CHR 0x0A] @ ''3.2. Scope'')"
  have pl: "page_lines ?page = [''  3.2 Inspection Criteria '', ''3.2. Scope'']" by code_simp
  have h1: "is_heading ''  3.2 Inspection Criteria ''" by code_simp
  have h2: "\<not> is_heading ''3.2. Scope''" by code_simp
  have ds: "detect_sections [''  3.2 Inspection Criteria '', ''3.2. Scope'']
      = [''3.2 Inspection Criteria'']"
    by code_simp
  from heading_rule [of ?page "[?page]"] have
    a: "\<forall>line \<in> set (page_lines ?page). is_heading line = spec_heading (strip line)" and
    b: "map heading_text (fst (scan_pages [?page]))
       = concat (map (\<lambda>page. detect_sections (page_lines page)) [?page])"
    by blast+
  from a have "is_heading ''  3.2 Inspection Criteria '' = spec_heading (strip ''  3.2 Inspection Criteria '')"
    "is_heading ''3.2. Scope'' = spec_heading (strip ''3.2. Scope'')"
    by (simp_all only: pl list.set insert_iff ball_simps bex_simps)
  with h1 h2 have s: "spec_heading (strip ''  3.2 Inspection Criteria '')"
    "\<not> spec_heading (strip ''3.2. Scope'')"
    by simp_all
  from b have "map heading_text (fst (scan_pages [?page])) = [''3.2 Inspection Criteria'']"
    by (simp only: list.map concat.simps pl ds append_Nil2)
  with pl s show ?thesis by blast
qed

section \<open>The upload: stored rows and failures\<close>

lemma upload_document_stored:
  assumes "upload_document env ids req db = (Inr document, db')"
    and "upload_file req = Readable pages"
  shows "doc_id document = new_document_id ids
    \<and> documents db' = documents db @ [document]
    \<and> sections db' = sections db @ section_models_loop ids 0 (fst (parse_pages pages)) []
    \<and> figures db' = figures db @
          map (\<lambda>f. figure_model (new_document_id ids)
                      (map_option (\<lambda>i. new_section_id ids (nat i)) (section_index f)) f)
            (snd (parse_pages pages))"
proof -
  obtain ss fs where p: "parse_pages pages = (ss, fs)" by (cases "parse_pages pages")
  have "\<forall>f \<in> set fs. resolve_section_id (section_models_loop ids 0 ss []) f =
          Inr (map_option (\<lambda>i. new_section_id ids (nat i)) (section_index f))"
    using resolve_parsed [of _ pages ids] p by simp
  from figure_models_loop_eq [OF this, of "new_document_id ids" "[]"]
  have loop: "figure_models_loop (new_document_id ids) (section_models_loop ids 0 ss []) fs [] =
      Inr (map (\<lambda>f. figure_model (new_document_id ids)
                 (map_option (\<lambda>i. new_section_id ids (nat i)) (section_index f)) f) fs)"
    by simp
  from assms p loop show ?thesis
    by (auto simp: upload_document_def parse_pdf_def Let_def
        split: if_splits option.splits sum.splits)
qed

lemma upload_document_error_keeps_database:
  "upload_document env ids req db = (Inl e, db') \<Longrightarrow> db' = db"
  by (auto simp: upload_document_def Let_def
      split: if_splits option.splits sum.splits prod.splits)


text \<open>
  C7.  When the file cannot be opened, or its pages cannot be read, \<open>parse_pdf\<close> ends with
  an error and returns no section and no figure.  The upload then ends with an error and
  leaves the database as it was, whatever the file system and the session do: the
  document, its sections and its figures are built only after the extraction.  When the
  check of the name, the temporary file and the copy succeed, the error of the upload is
  the one of \<open>parse_pdf\<close>.
\<close>

theorem unreadable_pdf_aborts:
  assumes "upload_file req = Unreadable \<or> upload_file req = Unextractable e"
  shows "(\<exists>e'. parse_pdf (upload_file req) = Inl e'
            \<and> (endswith (map to_lower (filename req)) ''.pdf''
                 \<and> temp_write env (filename req) = None
                 \<and> storage_copy env (filename req) = None
                \<longrightarrow> upload_document env ids req db = (Inl e', db)))
    \<and> (\<exists>e'. upload_document env ids req db = (Inl e', db))"
proof -
  from assms obtain e' where p: "parse_pdf (upload_file req) = Inl e'"
    by (auto simp: parse_pdf_def)
  have a: "upload_document env ids req db = (Inl e', db)"
    if "endswith (map to_lower (filename req)) ''.pdf''" "temp_write env (filename req) = None"
      "storage_copy env (filename req) = None"
    using that p by (simp add: upload_document_def save_pdf_def Let_def)
  have b: "\<exists>e''. upload_document env ids req db = (Inl e'', db)"
    using p by (simp add: upload_document_def save_pdf_def Let_def split: option.splits)
  from p a have "parse_pdf (upload_file req) = Inl e'
      \<and> (endswith (map to_lower (filename req)) ''.pdf''
           \<and> temp_write env (filename req) = None
           \<and> storage_copy env (filename req) = None
          \<longrightarrow> upload_document env ids req db = (Inl e', db))"
    by simp
  then have "\<exists>e'. parse_pdf (upload_file req) = Inl e'
      \<and> (endswith (map to_lower (filename req)) ''.pdf''
           \<and> temp_write env (filename req) = None
           \<and> storage_copy env (filename req) = None
          \<longrightarrow> upload_document env ids req db = (Inl e', db))"
    by (rule exI)
  then show ?thesis using b by (rule conjI)
qed

theorem unreadable_pdf_aborts_witness:
  "upload_document
       \<lparr>temp_write = (\<lambda>name. None), storage_copy = (\<lambda>name. None), flush_document = None,
        flush_sections = None, commit = None\<rparr>
       \<lparr>new_document_id = 7, new_section_id = (\<lambda>k. 10 + int k)\<rparr>
       \<lparr>manufacturer_id = 1, title = ''Manual'', revision_date = None, tags = None,
        filename = ''Manual.PDF'', upload_file = Unreadable, user_id = 1, user_role = ''admin''\<rparr>
       \<lparr>documents = [], sections = [], figures = [], audit_logs = []\<rparr>
     = (Inl PdfReadError, \<lparr>documents = [], sections = [], figures = [], audit_logs = []\<rparr>)
   \<and> upload_document
       \<lparr>temp_write = (\<lambda>name. if CHR ''/'' \<in> set name then Some (OSError ''FileNotFoundError'')
                               else None),
        storage_copy = (\<lambda>name. None), flush_document = None,
        flush_sections = None, commit = None\<rparr>
       \<lparr>new_document_id = 7, new_section_id = (\<lambda>k. 10 + int k)\<rparr>
       \<lparr>manufacturer_id = 1, title = ''Manual'', revision_date = None, tags = None,
        filename = ''sub/x.pdf'', upload_file = Unextractable KeyError, user_id = 1,
        user_role = ''admin''\<rparr>
       \<lparr>documents = [], sections = [], figures = [], audit_logs = []\<rparr>
     = (Inl (OSError ''FileNotFoundError''),
        \<lparr>documents = [], sections = [], figures = [], audit_logs = []\<rparr>)"
proof -
  let ?ok = "\<lparr>temp_write = (\<lambda>name. None), storage_copy = (\<lambda>name. None), flush_document = None,
        flush_sections = None, commit = None\<rparr>"
  let ?nodir = "\<lparr>temp_write = (\<lambda>name. if CHR ''/'' \<in> set name
            then Some (OSError ''FileNotFoundError'') else None),
        storage_copy = (\<lambda>name. None), flush_document = None,
        flush_sections = None, commit = None\<rparr>"
  let ?ids = "\<lparr>new_document_id = 7, new_section_id = (\<lambda>k. 10 + int k)\<rparr>"
  let ?req1 = "\<lparr>manufacturer_id = 1, title = ''Manual'', revision_date = None, tags = None,
        filename = ''Manual.PDF'', upload_file = Unreadable, user_id = 1, user_role = ''admin''\<rparr>"
  let ?req2 = "\<lparr>manufacturer_id = 1, title = ''Manual'', revision_date = None, tags = None,
        filename = ''sub/x.pdf'', upload_file = Unextractable KeyError, user_id = 1,
        user_role = ''admin''\<rparr>"
  let ?db = "\<lparr>documents = [], sections = [], figures = [], audit_logs = []\<rparr>"
  have h1: "upload_file ?req1 = Unreadable \<or> upload_file ?req1 = Unextractable KeyError" by simp
  have h2: "upload_file ?req2 = Unreadable \<or> upload_file ?req2 = Unextractable KeyError" by simp
  have p1: "parse_pdf (upload_file ?req1) = Inl PdfReadError" by (simp add: parse_pdf_def)
  have n1: "endswith (map to_lower (filename ?req1)) ''.pdf''" by code_simp
  have io1: "temp_write ?ok (filename ?req1) = None" "storage_copy ?ok (filename ?req1) = None"
    by simp_all
  from unreadable_pdf_aborts [OF h1, of ?ok ?ids ?db] p1 n1 io1
  have 1: "upload_document ?ok ?ids ?req1 ?db = (Inl PdfReadError, ?db)" by auto
  from unreadable_pdf_aborts [OF h2, of ?nodir ?ids ?db]
  obtain e' where e: "upload_document ?nodir ?ids ?req2 ?db = (Inl e', ?db)" by blast
  have "fst (upload_document ?nodir ?ids ?req2 ?db) = Inl (OSError ''FileNotFoundError'')"
    by code_simp
  with e have 2: "upload_document ?nodir ?ids ?req2 ?db = (Inl (OSError ''FileNotFoundError''), ?db)"
    by simp
  from 1 2 show ?thesis by (rule conjI)
qed


text \<open>
  C3.  When no heading is detected on any page, the output has exactly one section, the
  fallback: it is titled \<open>Document Overview\<close>, starts on page 1, ends on the last page and
  has \<open>order_index\<close> 1.  The figures of such a document have no section index, and an
  upload that succeeds stores the fallback section and one row for each figure, every one
  of them without a section reference.
\<close>

theorem no_heading_fallback:
  assumes "\<forall>page \<in> set pages. detect_sections (page_lines page) = []"
  shows "fst (parse_pages pages) =
      [\<lparr>heading_text = ''Document Overview'', heading_level = ''H1'', page_start = Some 1,
        page_end = Some (int (length pages)), order_index = 1\<rparr>]
    \<and> (\<forall>f \<in> set (snd (parse_pages pages)). section_index f = None)
    \<and> (upload_file req = Readable pages \<and> upload_document env ids req db = (Inr document, db')
        \<longrightarrow>
          sections db' = sections db @
            [\<lparr>sec_id = new_section_id ids 0, sec_document_id = doc_id document,
              sec_heading_text = ''Document Overview'', sec_heading_level = ''H1'',
              sec_page_start = Some 1, sec_page_end = Some (int (length pages)),
              sec_order_index = 1\<rparr>]
          \<and> figures db' = figures db @
              map (\<lambda>f. \<lparr>fig_document_id = doc_id document, fig_section_id = None,
                         fig_page_number = page_number f, fig_caption_text = caption_text f,
                         fig_image_storage_key = None, fig_order_index_db = fig_order_index f\<rparr>)
                (snd (parse_pages pages)))"
proof -
  from assms have none: "page_headings 1 pages = []" by (simp only: page_headings_empty)
  then have secs: "fst (parse_pages pages) =
      [\<lparr>heading_text = ''Document Overview'', heading_level = ''H1'', page_start = Some 1,
        page_end = Some (int (length pages)), order_index = 1\<rparr>]"
    by (simp add: parse_pages_eq)
  have figs: "section_index f = None" if "f \<in> set (snd (parse_pages pages))" for f
  proof -
    from parsed_figure_facts [OF that] obtain q where
      f: "section_index f = last_index (length (page_headings 1 (take (nat q) pages)))"
      by blast
    from length_page_headings_prefix [of 1 "nat q" pages] none
    have "length (page_headings 1 (take (nat q) pages)) = 0" by simp
    with f show ?thesis by (simp add: last_index_def)
  qed
  have stored: "sections db' = sections db @
            [\<lparr>sec_id = new_section_id ids 0, sec_document_id = doc_id document,
              sec_heading_text = ''Document Overview'', sec_heading_level = ''H1'',
              sec_page_start = Some 1, sec_page_end = Some (int (length pages)),
              sec_order_index = 1\<rparr>]
          \<and> figures db' = figures db @
              map (\<lambda>f. \<lparr>fig_document_id = doc_id document, fig_section_id = None,
                         fig_page_number = page_number f, fig_caption_text = caption_text f,
                         fig_image_storage_key = None, fig_order_index_db = fig_order_index f\<rparr>)
                (snd (parse_pages pages))"
    if r: "upload_file req = Readable pages"
      and u: "upload_document env ids req db = (Inr document, db')"
  proof -
    from upload_document_stored [OF u r] have
      d: "doc_id document = new_document_id ids" and
      s: "sections db' = sections db @ section_models_loop ids 0 (fst (parse_pages pages)) []" and
      g: "figures db' = figures db @
          map (\<lambda>f. figure_model (new_document_id ids)
                      (map_option (\<lambda>i. new_section_id ids (nat i)) (section_index f)) f)
            (snd (parse_pages pages))"
      by simp_all
    from s have s': "sections db' = sections db @
            [\<lparr>sec_id = new_section_id ids 0, sec_document_id = doc_id document,
              sec_heading_text = ''Document Overview'', sec_heading_level = ''H1'',
              sec_page_start = Some 1, sec_page_end = Some (int (length pages)),
              sec_order_index = 1\<rparr>]"
      by (simp add: secs d)
    have "map (\<lambda>f. figure_model (new_document_id ids)
                (map_option (\<lambda>i. new_section_id ids (nat i)) (section_index f)) f)
            (snd (parse_pages pages))
        = map (\<lambda>f. \<lparr>fig_document_id = doc_id document, fig_section_id = None,
                     fig_page_number = page_number f, fig_caption_text = caption_text f,
                     fig_image_storage_key = None, fig_order_index_db = fig_order_index f\<rparr>)
            (snd (parse_pages pages))"
      by (rule map_cong) (simp_all add: figs figure_model_def d)
    with g s' show ?thesis by simp
  qed
  from secs figs stored show ?thesis by blast
qed

theorem no_heading_fallback_witness:
  "detect_sections (page_lines (Some ''Figure 1 overview'')) = []
   \<and> detect_sections (page_lines None) = []
   \<and> fst (parse_pages [Some ''Figure 1 overview'', None]) =
      [\<lparr>heading_text = ''Document Overview'', heading_level = ''H1'', page_start = Some 1,
        page_end = Some 2, order_index = 1\<rparr>]
   \<and> snd (parse_pages [Some ''Figure 1 overview'', None]) =
      [\<lparr>section_index = None, page_number = Some 1, caption_text = Some ''Figure 1 overview'',
        fig_order_index = 1\<rparr>]
   \<and> fst (upload_document
        \<lparr>temp_write = (\<lambda>name. None), storage_copy = (\<lambda>name. None), flush_document = None,
         flush_sections = None, commit = None\<rparr>
        \<lparr>new_document_id = 7, new_section_id = (\<lambda>k. 10 + int k)\<rparr>
        \<lparr>manufacturer_id = 1, title = ''Manual'', revision_date = None, tags = None,
         filename = ''manual.pdf'', upload_file = Readable [Some ''Figure 1 overview'', None],
         user_id = 1, user_role = ''admin''\<rparr>
        \<lparr>documents = [], sections = [], figures = [], audit_logs = []\<rparr>) =
      Inr \<lparr>doc_id = 7, doc_manufacturer_id = 1, doc_title = ''Manual'',
           doc_original_filename = ''manual.pdf'', doc_storage_key = ''pdfs/manual.pdf'',
           doc_uploaded_by = 1, doc_revision_date = None, doc_tags = None\<rparr>
   \<and> sections (snd (upload_document
        \<lparr>temp_write = (\<lambda>name. None), storage_copy = (\<lambda>name. None), flush_document = None,
         flush_sections = None, commit = None\<rparr>
        \<lparr>new_document_id = 7, new_section_id = (\<lambda>k. 10 + int k)\<rparr>
        \<lparr>manufacturer_id = 1, title = ''Manual'', revision_date = None, tags = None,
         filename = ''manual.pdf'', upload_file = Readable [Some ''Figure 1 overview'', None],
         user_id = 1, user_role = ''admin''\<rparr>
        \<lparr>documents = [], sections = [], figures = [], audit_logs = []\<rparr>)) =
      [\<lparr>sec_id = 10, sec_document_id = 7, sec_heading_text = ''Document Overview'',
        sec_heading_level = ''H1'', sec_page_start = Some 1, sec_page_end = Some 2,
        sec_order_index = 1\<rparr>]
   \<and> figures (snd (upload_document
        \<lparr>temp_write = (\<lambda>name. None), storage_copy = (\<lambda>name. None), flush_document = None,
         flush_sections = None, commit = None\<rparr>
        \<lparr>new_document_id = 7, new_section_id = (\<lambda>k. 10 + int k)\<rparr>
        \<lparr>manufacturer_id = 1, title = ''Manual'', revision_date = None, tags = None,
         filename = ''manual.pdf'', upload_file = Readable [Some ''Figure 1 overview'', None],
         user_id = 1, user_role = ''admin''\<rparr>
        \<lparr>documents = [], sections = [], figures = [], audit_logs = []\<rparr>)) =
      [\<lparr>fig_document_id = 7, fig_section_id = None, fig_page_number = Some 1,
        fig_caption_text = Some ''Figure 1 overview'', fig_image_storage_key = None,
        fig_order_index_db = 1\<rparr>]"
proof -
  let ?pages = "[Some ''Figure 1 overview'', None]"
  let ?env = "\<lparr>temp_write = (\<lambda>name. None), storage_copy = (\<lambda>name. None),
         flush_document = None, flush_sections = None, commit = None\<rparr>"
  let ?req = "\<lparr>manufacturer_id = 1, title = ''Manual'', revision_date = None, tags = None,
         filename = ''manual.pdf'', upload_file = Readable ?pages,
         user_id = 1, user_role = ''admin''\<rparr>"
  let ?ids = "\<lparr>new_document_id = 7, new_section_id = (\<lambda>k. 10 + int k)\<rparr>"
  let ?db = "\<lparr>documents = [], sections = [], figures = [], audit_logs = []\<rparr>"
  let ?doc = "\<lparr>doc_id = 7, doc_manufacturer_id = 1, doc_title = ''Manual'',
           doc_original_filename = ''manual.pdf'', doc_storage_key = ''pdfs/manual.pdf'',
           doc_uploaded_by = 1, doc_revision_date = None, doc_tags = None\<rparr>"
  have d1: "detect_sections (page_lines (Some ''Figure 1 overview'')) = []" by code_simp
  have d2: "detect_sections (page_lines None) = []" by code_simp
  have h1: "\<forall>page \<in> set ?pages. detect_sections (page_lines page) = []"
    using d1 d2 by simp
  have r: "upload_file ?req = Readable ?pages" by simp
  have ok: "fst (upload_document ?env ?ids ?req ?db) = Inr ?doc" by code_simp
  then have u: "upload_document ?env ?ids ?req ?db = (Inr ?doc, snd (upload_document ?env ?ids ?req ?db))"
    by (simp add: prod_eq_iff)
  have fs: "snd (parse_pages ?pages) =
      [\<lparr>section_index = None, page_number = Some 1, caption_text = Some ''Figure 1 overview'',
        fig_order_index = 1\<rparr>]"
    by code_simp
  from no_heading_fallback [OF h1, of ?req ?env ?ids ?db ?doc "snd (upload_document ?env ?ids ?req ?db)"] r u
  have a: "fst (parse_pages ?pages) =
      [\<lparr>heading_text = ''Document Overview'', heading_level = ''H1'', page_start = Some 1,
        page_end = Some (int (length ?pages)), order_index = 1\<rparr>]" and
    s: "sections (snd (upload_document ?env ?ids ?req ?db)) = sections ?db @
            [\<lparr>sec_id = new_section_id ?ids 0, sec_document_id = doc_id ?doc,
              sec_heading_text = ''Document Overview'', sec_heading_level = ''H1'',
              sec_page_start = Some 1, sec_page_end = Some (int (length ?pages)),
              sec_order_index = 1\<rparr>]" and
    g: "figures (snd (upload_document ?env ?ids ?req ?db)) = figures ?db @
              map (\<lambda>f. \<lparr>fig_document_id = doc_id ?doc, fig_section_id = None,
                         fig_page_number = page_number f, fig_caption_text = caption_text f,
                         fig_image_storage_key = None, fig_order_index_db = fig_order_index f\<rparr>)
                (snd (parse_pages ?pages))"
    by blast+
  from a have a': "fst (parse_pages ?pages) =
      [\<lparr>heading_text = ''Document Overview'', heading_level = ''H1'', page_start = Some 1,
        page_end = Some 2, order_index = 1\<rparr>]"
    by simp
  from s have s': "sections (snd (upload_document ?env ?ids ?req ?db)) =
      [\<lparr>sec_id = 10, sec_document_id = 7, sec_heading_text = ''Document Overview'',
        sec_heading_level = ''H1'', sec_page_start = Some 1, sec_page_end = Some 2,
        sec_order_index = 1\<rparr>]"
    by simp
  from g have g': "figures (snd (upload_document ?env ?ids ?req ?db)) =
      [\<lparr>fig_document_id = 7, fig_section_id = None, fig_page_number = Some 1,
        fig_caption_text = Some ''Figure 1 overview'', fig_image_storage_key = None,
        fig_order_index_db = 1\<rparr>]"
    by (simp only: fs) simp
  from d1 d2 a' fs ok s' g' show ?thesis by blast
qed


lemma parsed_figure_association:
  assumes "f \<in> set (snd (parse_pages pages))"
  shows "\<exists>q. page_number f = Some q \<and> 1 \<le> q \<and> q \<le> int (length pages)
    \<and> section_index f =
         (if fst (scan_pages (take (nat q) pages)) = [] then None
          else Some (int (length (fst (scan_pages (take (nat q) pages)))) - 1))
    \<and> (fst (scan_pages (take (nat q) pages)) \<noteq> [] \<longrightarrow>
         fst (scan_pages (take (nat q) pages))
           = take (length (fst (scan_pages (take (nat q) pages)))) (fst (parse_pages pages)))
    \<and> resolve_section_id (section_models_loop ids 0 (fst (parse_pages pages)) []) f =
         Inr (if fst (scan_pages (take (nat q) pages)) = [] then None
              else Some (sec_id (section_models_loop ids 0 (fst (parse_pages pages)) []
                     ! (length (fst (scan_pages (take (nat q) pages))) - 1))))"
proof -
  from parsed_figure_facts [OF assms] obtain q where
    q: "page_number f = Some q" "1 \<le> q" "q \<le> int (length pages)" and
    f: "section_index f = last_index (length (page_headings 1 (take (nat q) pages)))"
    by blast
  let ?det = "fst (scan_pages (take (nat q) pages))"
  let ?n = "length (page_headings 1 (take (nat q) pages))"
  let ?sms = "section_models_loop ids 0 (fst (parse_pages pages)) []"
  have len: "length ?det = ?n" by (simp add: scan_pages_take_sections)
  then have empty: "?det = [] \<longleftrightarrow> ?n = 0" by (metis length_0_conv)
  have idx: "section_index f = (if ?det = [] then None else Some (int (length ?det) - 1))"
    using f by (simp add: empty len last_index_def)
  have pre: "?det = take (length ?det) (fst (parse_pages pages))" if "?det \<noteq> []"
  proof -
    from that empty have "page_headings 1 (take (nat q) pages) \<noteq> []" by simp
    with page_headings_take_drop [of 1 pages "nat q"] have ne: "page_headings 1 pages \<noteq> []"
      by (metis append_is_Nil_conv)
    have "number_sections 1 (page_headings 1 pages) =
        number_sections 1 (page_headings 1 (take (nat q) pages)) @
        number_sections (1 + int ?n)
          (page_headings (1 + int (length (take (nat q) pages))) (drop (nat q) pages))"
      using arg_cong [OF page_headings_take_drop [of 1 pages "nat q"], of "number_sections 1"]
      by (simp only: number_sections_append)
    with ne show ?thesis by (simp add: parse_pages_eq scan_pages_take_sections)
  qed
  have le: "?n \<le> length ?sms"
    using length_page_headings_prefix [of 1 "nat q" pages] length_parsed_sections [of pages]
    by (simp add: length_section_models_loop)
  from resolve_last_index [OF f le]
  have res: "resolve_section_id ?sms f =
      Inr (if ?det = [] then None else Some (sec_id (?sms ! (length ?det - 1))))"
    by (simp add: empty len)
  from q idx pre res show ?thesis by blast
qed


text \<open>
  C4.  When a figure line of page \<open>q\<close> is read, the sections detected so far are those of
  the pages \<open>1, ..., q\<close>: the figure loop of a page runs after its heading loop.  The
  figure refers to the last of them, or to no section when there is none, and these
  sections are the first ones of the output.  An upload that succeeds stores, for the
  \<open>k\<close>-th figure, a row at position \<open>k\<close> after the rows that were there; its section
  reference is the identity of the stored row of that last section, or is unset when no
  section was detected.
\<close>

theorem figure_section_association:
  assumes "k < length (snd (parse_pages pages))" and "f = snd (parse_pages pages) ! k"
  shows "\<exists>q. page_number f = Some q \<and> 1 \<le> q \<and> q \<le> int (length pages)
    \<and> section_index f =
         (if fst (scan_pages (take (nat q) pages)) = [] then None
          else Some (int (length (fst (scan_pages (take (nat q) pages)))) - 1))
    \<and> (fst (scan_pages (take (nat q) pages)) \<noteq> [] \<longrightarrow>
         fst (scan_pages (take (nat q) pages))
           = take (length (fst (scan_pages (take (nat q) pages)))) (fst (parse_pages pages)))
    \<and> (upload_file req = Readable pages \<and> upload_document env ids req db = (Inr document, db')
        \<longrightarrow>
          length (figures db') = length (figures db) + length (snd (parse_pages pages))
          \<and> figures db' ! (length (figures db) + k) =
              \<lparr>fig_document_id = doc_id document,
               fig_section_id =
                 (if fst (scan_pages (take (nat q) pages)) = [] then None
                  else Some (sec_id (sections db' !
                    (length (sections db) + (length (fst (scan_pages (take (nat q) pages))) - 1))))),
               fig_page_number = Some q, fig_caption_text = caption_text f,
               fig_image_storage_key = None, fig_order_index_db = fig_order_index f\<rparr>
          \<and> (fst (scan_pages (take (nat q) pages)) \<noteq> [] \<longrightarrow>
               sections db' !
                 (length (sections db) + (length (fst (scan_pages (take (nat q) pages))) - 1)) =
               \<lparr>sec_id = new_section_id ids (length (fst (scan_pages (take (nat q) pages))) - 1),
                sec_document_id = doc_id document,
                sec_heading_text = heading_text (last (fst (scan_pages (take (nat q) pages)))),
                sec_heading_level = heading_level (last (fst (scan_pages (take (nat q) pages)))),
                sec_page_start = page_start (last (fst (scan_pages (take (nat q) pages)))),
                sec_page_end = page_end (last (fst (scan_pages (take (nat q) pages)))),
                sec_order_index = order_index (last (fst (scan_pages (take (nat q) pages))))\<rparr>))"
proof -
  let ?secs = "fst (parse_pages pages)" and ?figs = "snd (parse_pages pages)"
  from assms have mem: "f \<in> set ?figs" by simp
  from parsed_figure_association [OF mem, of ids] obtain q where
    q: "page_number f = Some q" "1 \<le> q" "q \<le> int (length pages)" and
    idx: "section_index f =
         (if fst (scan_pages (take (nat q) pages)) = [] then None
          else Some (int (length (fst (scan_pages (take (nat q) pages)))) - 1))" and
    pre: "fst (scan_pages (take (nat q) pages)) \<noteq> [] \<longrightarrow>
         fst (scan_pages (take (nat q) pages))
           = take (length (fst (scan_pages (take (nat q) pages)))) ?secs"
    by blast
  let ?det = "fst (scan_pages (take (nat q) pages))"
  let ?sms = "section_models_loop ids 0 ?secs []"
  have last_row: "length ?det - 1 < length ?secs \<and> ?secs ! (length ?det - 1) = last ?det"
    if ne: "?det \<noteq> []"
  proof -
    from pre ne have t: "?det = take (length ?det) ?secs" by blast
    then have "length ?det = min (length ?secs) (length ?det)" by (metis length_take)
    then have le: "length ?det \<le> length ?secs" by simp
    from ne have pos: "0 < length ?det" by simp
    from pos le have lt: "length ?det - 1 < length ?secs" by linarith
    from pos have lt': "length ?det - 1 < length ?det" by linarith
    have "last ?det = ?det ! (length ?det - 1)" using ne by (rule last_conv_nth)
    also have "\<dots> = take (length ?det) ?secs ! (length ?det - 1)" using t by simp
    also have "\<dots> = ?secs ! (length ?det - 1)" using lt' by (rule nth_take)
    finally show ?thesis using lt by simp
  qed
  have stored:
    "length (figures db') = length (figures db) + length ?figs
     \<and> figures db' ! (length (figures db) + k) =
        \<lparr>fig_document_id = doc_id document,
         fig_section_id =
           (if ?det = [] then None
            else Some (sec_id (sections db' ! (length (sections db) + (length ?det - 1))))),
         fig_page_number = Some q, fig_caption_text = caption_text f,
         fig_image_storage_key = None, fig_order_index_db = fig_order_index f\<rparr>
     \<and> (?det \<noteq> [] \<longrightarrow>
          sections db' ! (length (sections db) + (length ?det - 1)) =
          \<lparr>sec_id = new_section_id ids (length ?det - 1), sec_document_id = doc_id document,
           sec_heading_text = heading_text (last ?det),
           sec_heading_level = heading_level (last ?det),
           sec_page_start = page_start (last ?det), sec_page_end = page_end (last ?det),
           sec_order_index = order_index (last ?det)\<rparr>)"
    if r: "upload_file req = Readable pages"
      and u: "upload_document env ids req db = (Inr document, db')"
  proof -
    from upload_document_stored [OF u r] have
      d: "doc_id document = new_document_id ids" and
      s: "sections db' = sections db @ ?sms" and
      g: "figures db' = figures db @
          map (\<lambda>f. figure_model (new_document_id ids)
                      (map_option (\<lambda>i. new_section_id ids (nat i)) (section_index f)) f) ?figs"
      by simp_all
    from g have len: "length (figures db') = length (figures db) + length ?figs" by simp
    from g assms have row: "figures db' ! (length (figures db) + k) =
        figure_model (new_document_id ids)
          (map_option (\<lambda>i. new_section_id ids (nat i)) (section_index f)) f"
      by (simp only: nth_append_length_plus nth_map)
    from s have srow: "sections db' ! (length (sections db) + (length ?det - 1))
        = ?sms ! (length ?det - 1)"
      by (simp only: nth_append_length_plus)
    have model: "?sms ! (length ?det - 1) =
          \<lparr>sec_id = new_section_id ids (length ?det - 1), sec_document_id = doc_id document,
           sec_heading_text = heading_text (last ?det),
           sec_heading_level = heading_level (last ?det),
           sec_page_start = page_start (last ?det), sec_page_end = page_end (last ?det),
           sec_order_index = order_index (last ?det)\<rparr>"
      if ne: "?det \<noteq> []"
      using section_models_nth [of "length ?det - 1" ?secs ids] last_row [OF ne] d by simp
    have ref: "map_option (\<lambda>i. new_section_id ids (nat i)) (section_index f) =
        (if ?det = [] then None
         else Some (sec_id (sections db' ! (length (sections db) + (length ?det - 1)))))"
    proof (cases "?det = []")
      case True
      with idx show ?thesis by simp
    next
      case False
      then have "0 < length ?det" by simp
      then have "nat (int (length ?det) - 1) = length ?det - 1" by linarith
      with idx False model [OF False] srow show ?thesis by simp
    qed
    from row ref q(1) have row': "figures db' ! (length (figures db) + k) =
        \<lparr>fig_document_id = doc_id document,
         fig_section_id =
           (if ?det = [] then None
            else Some (sec_id (sections db' ! (length (sections db) + (length ?det - 1))))),
         fig_page_number = Some q, fig_caption_text = caption_text f,
         fig_image_storage_key = None, fig_order_index_db = fig_order_index f\<rparr>"
      by (simp add: figure_model_def d)
    from len row' model srow show ?thesis by simp
  qed
  from q idx pre stored show ?thesis by blast
qed


theorem figure_section_association_witness:
  "snd (parse_pages [Some ''1 Scope'', Some ''See Figure 4 below'', Some ''2 Method'']) ! 0
     = \<lparr>section_index = Some 0, page_number = Some 2,
        caption_text = Some ''See Figure 4 below'', fig_order_index = 1\<rparr>
   \<and> fst (scan_pages (take 2 [Some ''1 Scope'', Some ''See Figure 4 below'', Some ''2 Method'']))
       = [\<lparr>heading_text = ''1 Scope'', heading_level = ''H1'', page_start = Some 1,
           page_end = Some 1, order_index = 1\<rparr>]
   \<and> fst (upload_document
        \<lparr>temp_write = (\<lambda>name. None), storage_copy = (\<lambda>name. None), flush_document = None,
         flush_sections = None, commit = None\<rparr>
        \<lparr>new_document_id = 7, new_section_id = (\<lambda>k. 10 + int k)\<rparr>
        \<lparr>manufacturer_id = 1, title = ''Manual'', revision_date = None, tags = None,
         filename = ''manual.pdf'',
         upload_file = Readable [Some ''1 Scope'', Some ''See Figure 4 below'', Some ''2 Method''],
         user_id = 1, user_role = ''admin''\<rparr>
        \<lparr>documents = [], sections = [], figures = [], audit_logs = []\<rparr>) =
      Inr \<lparr>doc_id = 7, doc_manufacturer_id = 1, doc_title = ''Manual'',
           doc_original_filename = ''manual.pdf'', doc_storage_key = ''pdfs/manual.pdf'',
           doc_uploaded_by = 1, doc_revision_date = None, doc_tags = None\<rparr>
   \<and> figures (snd (upload_document
        \<lparr>temp_write = (\<lambda>name. None), storage_copy = (\<lambda>name. None), flush_document = None,
         flush_sections = None, commit = None\<rparr>
        \<lparr>new_document_id = 7, new_section_id = (\<lambda>k. 10 + int k)\<rparr>
        \<lparr>manufacturer_id = 1, title = ''Manual'', revision_date = None, tags = None,
         filename = ''manual.pdf'',
         upload_file = Readable [Some ''1 Scope'', Some ''See Figure 4 below'', Some ''2 Method''],
         user_id = 1, user_role = ''admin''\<rparr>
        \<lparr>documents = [], sections = [], figures = [], audit_logs = []\<rparr>)) ! 0 =
      \<lparr>fig_document_id = 7, fig_section_id = Some 10, fig_page_number = Some 2,
       fig_caption_text = Some ''See Figure 4 below'', fig_image_storage_key = None,
       fig_order_index_db = 1\<rparr>
   \<and> sections (snd (upload_document
        \<lparr>temp_write = (\<lambda>name. None), storage_copy = (\<lambda>name. None), flush_document = None,
         flush_sections = None, commit = None\<rparr>
        \<lparr>new_document_id = 7, new_section_id = (\<lambda>k. 10 + int k)\<rparr>
        \<lparr>manufacturer_id = 1, title = ''Manual'', revision_date = None, tags = None,
         filename = ''manual.pdf'',
         upload_file = Readable [Some ''1 Scope'', Some ''See Figure 4 below'', Some ''2 Method''],
         user_id = 1, user_role = ''admin''\<rparr>
        \<lparr>documents = [], sections = [], figures = [], audit_logs = []\<rparr>)) ! 0 =
      \<lparr>sec_id = 10, sec_document_id = 7, sec_heading_text = ''1 Scope'',
       sec_heading_level = ''H1'', sec_page_start = Some 1, sec_page_end = Some 1,
       sec_order_index = 1\<rparr>"
proof -
  let ?pages = "[Some ''1 Scope'', Some ''See Figure 4 below'', Some ''2 Method'']"
  let ?f = "\<lparr>section_index = Some 0, page_number = Some 2,
      caption_text = Some ''See Figure 4 below'', fig_order_index = 1\<rparr>"
  let ?env = "\<lparr>temp_write = (\<lambda>name. None), storage_copy = (\<lambda>name. None),
         flush_document = None, flush_sections = None, commit = None\<rparr>"
  let ?ids = "\<lparr>new_document_id = 7, new_section_id = (\<lambda>k. 10 + int k)\<rparr>"
  let ?req = "\<lparr>manufacturer_id = 1, title = ''Manual'', revision_date = None, tags = None,
         filename = ''manual.pdf'', upload_file = Readable ?pages,
         user_id = 1, user_role = ''admin''\<rparr>"
  let ?db = "\<lparr>documents = [], sections = [], figures = [], audit_logs = []\<rparr>"
  let ?doc = "\<lparr>doc_id = 7, doc_manufacturer_id = 1, doc_title = ''Manual'',
           doc_original_filename = ''manual.pdf'', doc_storage_key = ''pdfs/manual.pdf'',
           doc_uploaded_by = 1, doc_revision_date = None, doc_tags = None\<rparr>"
  let ?s1 = "\<lparr>heading_text = ''1 Scope'', heading_level = ''H1'', page_start = Some 1,
         page_end = Some 1, order_index = 1\<rparr>"
  have fs: "snd (parse_pages ?pages) = [?f]" by code_simp
  have sc: "fst (scan_pages (take 2 ?pages)) = [?s1]" by code_simp
  have k: "0 < length (snd (parse_pages ?pages))" by (simp only: fs) simp
  have f: "?f = snd (parse_pages ?pages) ! 0" by (simp only: fs) simp
  have r: "upload_file ?req = Readable ?pages" by simp
  have ok: "fst (upload_document ?env ?ids ?req ?db) = Inr ?doc" by code_simp
  then have u: "upload_document ?env ?ids ?req ?db
      = (Inr ?doc, snd (upload_document ?env ?ids ?req ?db))"
    by (simp add: prod_eq_iff)
  let ?db' = "snd (upload_document ?env ?ids ?req ?db)"
  from figure_section_association [OF k f, of ?req ?env ?ids ?db ?doc ?db'] r u
  obtain q where
    q: "page_number ?f = Some q" and
    row: "figures ?db' ! (length (figures ?db) + 0) =
              \<lparr>fig_document_id = doc_id ?doc,
               fig_section_id =
                 (if fst (scan_pages (take (nat q) ?pages)) = [] then None
                  else Some (sec_id (sections ?db' !
                    (length (sections ?db) + (length (fst (scan_pages (take (nat q) ?pages))) - 1))))),
               fig_page_number = Some q, fig_caption_text = caption_text ?f,
               fig_image_storage_key = None, fig_order_index_db = fig_order_index ?f\<rparr>" and
    srow: "fst (scan_pages (take (nat q) ?pages)) \<noteq> [] \<longrightarrow>
               sections ?db' !
                 (length (sections ?db) + (length (fst (scan_pages (take (nat q) ?pages))) - 1)) =
               \<lparr>sec_id = new_section_id ?ids (length (fst (scan_pages (take (nat q) ?pages))) - 1),
                sec_document_id = doc_id ?doc,
                sec_heading_text = heading_text (last (fst (scan_pages (take (nat q) ?pages)))),
                sec_heading_level = heading_level (last (fst (scan_pages (take (nat q) ?pages)))),
                sec_page_start = page_start (last (fst (scan_pages (take (nat q) ?pages)))),
                sec_page_end = page_end (last (fst (scan_pages (take (nat q) ?pages)))),
                sec_order_index = order_index (last (fst (scan_pages (take (nat q) ?pages))))\<rparr>"
    by blast
  from q have "q = 2" by simp
  then have n: "nat q = 2" by simp
  from srow have s': "sections ?db' ! 0 =
      \<lparr>sec_id = 10, sec_document_id = 7, sec_heading_text = ''1 Scope'',
       sec_heading_level = ''H1'', sec_page_start = Some 1, sec_page_end = Some 1,
       sec_order_index = 1\<rparr>"
    by (simp only: n sc) simp
  from row have "figures ?db' ! (length (figures ?db) + 0) =
      \<lparr>fig_document_id = doc_id ?doc,
       fig_section_id =
         (if [?s1] = [] then None
          else Some (sec_id (sections ?db' ! (length (sections ?db) + (length [?s1] - 1))))),
       fig_page_number = Some q, fig_caption_text = caption_text ?f,
       fig_image_storage_key = None, fig_order_index_db = fig_order_index ?f\<rparr>"
    by (simp only: n sc)
  then have "figures ?db' ! 0 =
      \<lparr>fig_document_id = 7, fig_section_id = Some (sec_id (sections ?db' ! 0)),
       fig_page_number = Some q, fig_caption_text = Some ''See Figure 4 below'',
       fig_image_storage_key = None, fig_order_index_db = 1\<rparr>"
    by simp
  then have r': "figures ?db' ! 0 =
      \<lparr>fig_document_id = 7, fig_section_id = Some 10, fig_page_number = Some 2,
       fig_caption_text = Some ''See Figure 4 below'', fig_image_storage_key = None,
       fig_order_index_db = 1\<rparr>"
    by (simp only: s' \<open>q = 2\<close>) simp
  from f sc ok r' s' show ?thesis by simp
qed

end
